theory Spec2Isabelle
  imports Complex_Main "HOL-Library.Sublist"
begin

section \<open>Page text\<close>

text \<open>
  Every matcher of \<^verbatim>\<open>weather_scraper.py\<close> works on \<^verbatim>\<open>soup.get_text()\<close>, a Python string.
  A page text is modelled as a \<^typ>\<open>string\<close> whose characters are the code points below 256
  (Latin-1), so the degree sign of the temperature patterns is the single character
  \<open>0xB0\<close>. On these code points \<^verbatim>\<open>\d\<close> is exactly the ten ASCII digits, \<^verbatim>\<open>\s\<close> and
  \<^verbatim>\<open>str.strip\<close> use the white space listed in \<open>py_isspace\<close>, and \<^verbatim>\<open>str.lower\<close> maps each
  character to one character.
\<close>

definition deg :: char where
  "deg = CHR 0xB0"

definition is_digit :: "char \<Rightarrow> bool" where
  "is_digit c = (48 \<le> (of_char c :: nat) \<and> (of_char c :: nat) \<le> 57)"

definition py_isspace :: "char \<Rightarrow> bool" where
  "py_isspace c =
     (let n = (of_char c :: nat)
      in (9 \<le> n \<and> n \<le> 13) \<or> (28 \<le> n \<and> n \<le> 32) \<or> n = 133 \<or> n = 160)"

definition is_upper_ascii :: "char \<Rightarrow> bool" where
  "is_upper_ascii c = (65 \<le> (of_char c :: nat) \<and> (of_char c :: nat) \<le> 90)"

definition is_lower_ascii :: "char \<Rightarrow> bool" where
  "is_lower_ascii c = (97 \<le> (of_char c :: nat) \<and> (of_char c :: nat) \<le> 122)"

definition py_lower_char :: "char \<Rightarrow> char" where
  "py_lower_char c =
     (let n = (of_char c :: nat)
      in if (65 \<le> n \<and> n \<le> 90) \<or> (192 \<le> n \<and> n \<le> 222 \<and> n \<noteq> 215)
         then char_of (n + 32) else c)"

definition py_lower :: "string \<Rightarrow> string" where
  "py_lower s = map py_lower_char s"

text \<open>\<^verbatim>\<open>needle in haystack\<close> on strings.\<close>

definition py_in :: "string \<Rightarrow> string \<Rightarrow> bool" where
  "py_in needle haystack = sublist needle haystack"

text \<open>
  \<^verbatim>\<open>str.title\<close>: a cased character that follows an uncased one is upper-cased, one that
  follows a cased character is lower-cased. The source applies it to its own keyword
  literals only, which are ASCII, so the cased characters here are the ASCII letters.
\<close>

definition py_upper_ascii :: "char \<Rightarrow> char" where
  "py_upper_ascii c = (if is_lower_ascii c then char_of ((of_char c :: nat) - 32) else c)"

fun title_from :: "bool \<Rightarrow> string \<Rightarrow> string" where
  "title_from prev_cased [] = []"
| "title_from prev_cased (c # cs) =
     (if is_lower_ascii c then
        (if prev_cased then c else py_upper_ascii c) # title_from True cs
      else if is_upper_ascii c then
        (if prev_cased then py_lower_char c else c) # title_from True cs
      else c # title_from False cs)"

definition py_title :: "string \<Rightarrow> string" where
  "py_title s = title_from False s"

section \<open>Regular expressions of the \<^verbatim>\<open>re\<close> module\<close>

text \<open>
  The patterns of the source use literals, character classes, greedy and lazy repetition
  of a single character class, alternation, an optional part, one capturing group and
  the end anchor. \<open>run\<close> is the backtracking matcher: it returns every way the pattern
  can match at the start of the remaining text, in the order in which the backtracking
  engine tries them, so the head of the list is the match \<^verbatim>\<open>re\<close> reports.
  A state is the text still to read and the text captured by group 1 so far.
\<close>

datatype rx =
    Eps
  | Sym "char \<Rightarrow> bool"
  | Seq rx rx
  | Alt rx rx
  | Opt rx
  | PlusG "char \<Rightarrow> bool"
  | StarG "char \<Rightarrow> bool"
  | StarL "char \<Rightarrow> bool"
  | Grp rx
  | Eol

type_synonym mstate = "string \<times> string option"

text \<open>The texts left after reading 0, 1, 2, ... characters of a class (shortest first).\<close>

fun lazy_rests :: "(char \<Rightarrow> bool) \<Rightarrow> string \<Rightarrow> string list" where
  "lazy_rests p [] = [Nil]"
| "lazy_rests p (x # xs) = (x # xs) # (if p x then lazy_rests p xs else [])"

fun run :: "rx \<Rightarrow> mstate \<Rightarrow> mstate list" where
  "run Eps st = [st]"
| "run (Sym p) (s, g) = (case s of [] \<Rightarrow> [] | x # xs \<Rightarrow> if p x then [(xs, g)] else [])"
| "run (Seq a b) st = concat (map (run b) (run a st))"
| "run (Alt a b) st = run a st @ run b st"
| "run (Opt a) st = run a st @ [st]"
| "run (PlusG p) (s, g) =
     (case s of [] \<Rightarrow> []
      | x # xs \<Rightarrow> if p x then map (\<lambda>r. (r, g)) (rev (lazy_rests p xs)) else [])"
| "run (StarG p) (s, g) = map (\<lambda>r. (r, g)) (rev (lazy_rests p s))"
| "run (StarL p) (s, g) = map (\<lambda>r. (r, g)) (lazy_rests p s)"
| "run (Grp a) (s, g) =
     map (\<lambda>(s', g'). (s', Some (take (length s - length s') s))) (run a (s, g))"
| "run Eol (s, g) = (if s = [] \<or> s = [CHR 0x0A] then [(s, g)] else [])"

text \<open>\<^verbatim>\<open>re.match\<close>: the pattern at the start of the text; the result is group 1.\<close>

definition re_match :: "rx \<Rightarrow> string \<Rightarrow> string option option" where
  "re_match r s = (case run r (s, None) of [] \<Rightarrow> None | (s', g) # _ \<Rightarrow> Some g)"

text \<open>\<^verbatim>\<open>re.search\<close>: the first position, from the left, at which the pattern matches.\<close>

fun re_search :: "rx \<Rightarrow> string \<Rightarrow> string option option" where
  "re_search r [] = re_match r []"
| "re_search r (x # xs) =
     (case re_match r (x # xs) of None \<Rightarrow> re_search r xs | Some g \<Rightarrow> Some g)"

text \<open>\<^verbatim>\<open>m.group(1)\<close> as a string; a group that took no part in the match gives the empty
  string in \<^verbatim>\<open>re.findall\<close>.\<close>

definition group1 :: "string option \<Rightarrow> string" where
  "group1 g = (case g of None \<Rightarrow> [] | Some w \<Rightarrow> w)"

text \<open>
  \<^verbatim>\<open>re.findall\<close> with one group: group 1 of the successive matches that do not overlap.
  \<open>skip\<close> counts the characters still covered by the last match. No pattern of the source
  matches the empty string.
\<close>

fun findall_from :: "rx \<Rightarrow> nat \<Rightarrow> string \<Rightarrow> string list" where
  "findall_from r skip [] =
     (if skip = 0 then
        (case run r ([], None) of [] \<Rightarrow> [] | (s', g) # _ \<Rightarrow> [group1 g])
      else [])"
| "findall_from r skip (x # xs) =
     (if skip = 0 then
        (case run r (x # xs, None) of [] \<Rightarrow> findall_from r 0 xs
         | (s', g) # _ \<Rightarrow>
             group1 g # findall_from r (length (x # xs) - length s' - 1) xs)
      else findall_from r (skip - 1) xs)"

definition re_findall :: "rx \<Rightarrow> string \<Rightarrow> string list" where
  "re_findall r s = findall_from r 0 s"

text \<open>
  The language of a pattern, for the statements below: \<open>w \<in> lang r rest\<close> says that the
  pattern matches the text \<open>w\<close> when \<open>rest\<close> follows it (only the end anchor looks at what
  follows).
\<close>

fun lang :: "rx \<Rightarrow> string \<Rightarrow> string set" where
  "lang Eps rest = {[]}"
| "lang (Sym p) rest = {[c] | c. p c}"
| "lang (Seq a b) rest = {u @ v | u v. v \<in> lang b rest \<and> u \<in> lang a (v @ rest)}"
| "lang (Alt a b) rest = lang a rest \<union> lang b rest"
| "lang (Opt a) rest = insert [] (lang a rest)"
| "lang (PlusG p) rest = {w. w \<noteq> [] \<and> (\<forall>c\<in>set w. p c)}"
| "lang (StarG p) rest = {w. \<forall>c\<in>set w. p c}"
| "lang (StarL p) rest = {w. \<forall>c\<in>set w. p c}"
| "lang (Grp a) rest = lang a rest"
| "lang Eol rest = (if rest = [] \<or> rest = [CHR 0x0A] then {[]} else {})"

text \<open>
  Two syntactic checks on a pattern, used to describe what group 1 holds after a match:
  \<open>grp_all P r\<close> says that every text a group of \<open>r\<close> can capture satisfies \<open>P\<close>, and
  \<open>grp_sure r\<close> that no match of \<open>r\<close> leaves the group unset.
\<close>

fun grp_all :: "(string \<Rightarrow> bool) \<Rightarrow> rx \<Rightarrow> bool" where
  "grp_all P (Grp a) = ((\<forall>w rest. w \<in> lang a rest \<longrightarrow> P w) \<and> grp_all P a)"
| "grp_all P (Seq a b) = (grp_all P a \<and> grp_all P b)"
| "grp_all P (Alt a b) = (grp_all P a \<and> grp_all P b)"
| "grp_all P (Opt a) = grp_all P a"
| "grp_all P r = True"

fun grp_sure :: "rx \<Rightarrow> bool" where
  "grp_sure (Grp a) = True"
| "grp_sure (Seq a b) = (grp_sure a \<or> grp_sure b)"
| "grp_sure (Alt a b) = (grp_sure a \<and> grp_sure b)"
| "grp_sure r = False"

text \<open>The pattern matches somewhere in the text.\<close>

definition matches_in :: "rx \<Rightarrow> string \<Rightarrow> bool" where
  "matches_in r t = (\<exists>pre w post. t = pre @ w @ post \<and> w \<in> lang r post)"

text \<open>Pattern text under \<^verbatim>\<open>re.IGNORECASE\<close>, and without the flag.\<close>

definition ci :: "char \<Rightarrow> char \<Rightarrow> bool" where
  "ci c x = (py_lower_char x = py_lower_char c)"

fun lit_ci :: "string \<Rightarrow> rx" where
  "lit_ci [] = Eps"
| "lit_ci (c # cs) = Seq (Sym (ci c)) (lit_ci cs)"

definition any_char :: "char \<Rightarrow> bool" where
  "any_char c = (c \<noteq> CHR 0x0A)"

section \<open>Numbers\<close>

text \<open>
  A Python \<^verbatim>\<open>float\<close> is modelled by the rational number it stands for. The conversion
  \<^verbatim>\<open>float(n)\<close> of an integer is modelled as CPython does it: the integer is rounded to
  the nearest double (53 significant bits, a tie to the even neighbour), and a result
  beyond the range of a double is an \<^verbatim>\<open>OverflowError\<close>. The arithmetic on the converted
  values (the unit conversions) is exact in the model. \<^verbatim>\<open>int(s)\<close> of a string follows the
  interpreter's default limit: a string of more than 4300 digits is a \<^verbatim>\<open>ValueError\<close>.
\<close>

datatype error = ValueError | OverflowError

type_synonym pyfloat = rat

definition digit_val :: "char \<Rightarrow> int" where
  "digit_val c = (of_char c :: int) - 48"

definition int_of_digits :: "string \<Rightarrow> int" where
  "int_of_digits ds = foldl (\<lambda>a c. 10 * a + digit_val c) 0 ds"

text \<open>
  \<^verbatim>\<open>int(s)\<close> and \<^verbatim>\<open>float(s)\<close> on the strings a capture group of this module can hold: a
  run of digits, and a run of digits with an optional fraction. Any other string is
  reported as \<^verbatim>\<open>ValueError\<close>. \<open>max_str_digits\<close> is \<^verbatim>\<open>sys.get_int_max_str_digits()\<close>, which
  counts every digit of the string, leading zeros too; \<^verbatim>\<open>float(s)\<close> has no such limit and
  never raises on such a string, and its value is modelled by the exact decimal value.
\<close>

definition max_str_digits :: int where
  "max_str_digits = 4300"

definition py_int :: "string \<Rightarrow> error + int" where
  "py_int s = (if s = [] \<or> \<not> list_all is_digit s then Inl ValueError
               else if max_str_digits < int (length s) then Inl ValueError
               else Inr (int_of_digits s))"

definition py_float_str :: "string \<Rightarrow> error + pyfloat" where
  "py_float_str s =
     (let ip = takeWhile (\<lambda>c. c \<noteq> CHR ''.'') s;
          fp = drop (length ip + 1) s
      in if ip \<noteq> [] \<and> list_all is_digit ip \<and> list_all is_digit fp
            \<and> (length ip < length s \<longrightarrow> fp \<noteq> [])
         then Inr (of_int (int_of_digits ip) + of_int (int_of_digits fp) / 10 ^ length fp)
         else Inl ValueError)"

text \<open>\<^verbatim>\<open>int.bit_length\<close> of an integer that is not negative, and the double nearest to
  it.\<close>

function bit_length :: "int \<Rightarrow> nat" where
  "bit_length n = (if n \<le> 0 then 0 else Suc (bit_length (n div 2)))"
  by pat_completeness auto
termination
  by (relation "measure nat") auto

declare bit_length.simps [simp del]

definition nearest_double :: "int \<Rightarrow> int" where
  "nearest_double n =
     (if bit_length n \<le> 53 then n
      else let e = bit_length n - 53;
               q = n div 2 ^ e;
               r = n mod 2 ^ e;
               half = 2 ^ (e - 1)
           in (if half < r \<or> (r = half \<and> odd q) then q + 1 else q) * 2 ^ e)"

definition py_float_int :: "int \<Rightarrow> error + pyfloat" where
  "py_float_int n =
     (let d = nearest_double \<bar>n\<bar>
      in if 2 ^ 1024 \<le> d then Inl OverflowError
         else Inr (if n < 0 then - of_int d else of_int d))"

text \<open>The text has no run of more than \<open>max_str_digits\<close> digits.\<close>

definition no_long_digit_run :: "string \<Rightarrow> bool" where
  "no_long_digit_run t =
     (\<forall>w. sublist w t \<and> (\<forall>c\<in>set w. is_digit c) \<longrightarrow> int (length w) \<le> max_str_digits)"



section \<open>The matchers of \<^verbatim>\<open>WeatherScraper\<close>\<close>

record CurrentWeather =
  temperature :: pyfloat
  temperature_fahrenheit :: "pyfloat option"
  condition :: string
  humidity :: "int option"
  pressure :: "pyfloat option"
  wind_speed :: "pyfloat option"
  wind_direction :: "string option"
  visibility :: "pyfloat option"
  uv_index :: "int option"
  air_quality :: "string option"

definition digits1 :: rx where
  "digits1 = PlusG is_digit"

text \<open>\<^verbatim>\<open>\d+(?:\.\d+)?\<close>\<close>

definition decimal :: rx where
  "decimal = Seq digits1 (Opt (Seq (Sym (ci CHR ''.'')) digits1))"

subsection \<open>Temperature\<close>

text \<open>\<^verbatim>\<open>(\d+)\<degree>C\<close>, \<^verbatim>\<open>(\d+)\<degree>F\<close>, \<^verbatim>\<open>temperature.*?(\d+)\<close>, \<^verbatim>\<open>(\d+)\s*degrees\<close>, all with
  \<^verbatim>\<open>re.IGNORECASE\<close>.\<close>

definition celsius_rx :: rx where
  "celsius_rx = Seq (Grp digits1) (lit_ci [deg, CHR ''C''])"

definition fahrenheit_rx :: rx where
  "fahrenheit_rx = Seq (Grp digits1) (lit_ci [deg, CHR ''F''])"

definition temperature_rx :: rx where
  "temperature_rx = Seq (lit_ci ''temperature'') (Seq (StarL any_char) (Grp digits1))"

definition degrees_rx :: rx where
  "degrees_rx = Seq (Grp digits1) (Seq (StarG py_isspace) (lit_ci ''degrees''))"

definition temp_patterns :: "rx list" where
  "temp_patterns = [celsius_rx, fahrenheit_rx, temperature_rx, degrees_rx]"

text \<open>
  The loop over \<open>temp_patterns\<close> in \<^verbatim>\<open>_extract_current_weather\<close>. The result is
  \<open>(temp_celsius, temp_fahrenheit)\<close>, or \<open>None\<close> when the loop ends with both still unset.
\<close>

fun temp_loop :: "rx list \<Rightarrow> string \<Rightarrow> error + (pyfloat \<times> pyfloat) option" where
  "temp_loop [] text_content = Inr None"
| "temp_loop (pattern # rest) text_content =
     (case re_findall pattern text_content of
        [] \<Rightarrow> temp_loop rest text_content
      | m0 # _ \<Rightarrow>
          (case py_int m0 of
             Inl e \<Rightarrow> Inl e
           | Inr temp_value \<Rightarrow>
               if py_in [deg, CHR ''C''] text_content
                  \<or> py_in ''celsius'' (py_lower text_content)
               then (case py_float_int temp_value of
                       Inl e \<Rightarrow> Inl e
                     | Inr temp_celsius \<Rightarrow>
                         Inr (Some (temp_celsius, (temp_celsius * 9 / 5) + 32)))
               else (case py_float_int temp_value of
                       Inl e \<Rightarrow> Inl e
                     | Inr temp_fahrenheit \<Rightarrow>
                         Inr (Some ((temp_fahrenheit - 32) * 5 / 9, temp_fahrenheit)))))"

subsection \<open>Condition\<close>

definition conditions :: "string list" where
  "conditions = [''sunny'', ''cloudy'', ''rainy'', ''stormy'', ''clear'', ''overcast'',
                 ''partly cloudy'', ''mostly cloudy'']"

fun condition_loop :: "string list \<Rightarrow> string \<Rightarrow> string" where
  "condition_loop [] text_content = ''Partly Cloudy''"
| "condition_loop (c # cs) text_content =
     (if py_in c text_content then py_title c else condition_loop cs text_content)"

definition extract_condition :: "string \<Rightarrow> string" where
  "extract_condition t = condition_loop conditions (py_lower t)"

subsection \<open>Humidity, pressure, wind speed, visibility, UV index\<close>

definition humidity_rx :: rx where
  "humidity_rx = Seq (lit_ci ''humidity'')
                   (Seq (StarL any_char) (Seq (Grp digits1) (lit_ci ''%'')))"

definition pressure_rx :: rx where
  "pressure_rx = Seq (lit_ci ''pressure'')
                   (Seq (StarL any_char) (Seq (Grp decimal)
                     (Seq (StarG py_isspace) (Alt (lit_ci ''mb'') (lit_ci ''hpa'')))))"

definition wind_rx :: rx where
  "wind_rx = Seq (lit_ci ''wind'')
               (Seq (StarL any_char) (Seq (Grp decimal)
                 (Seq (StarG py_isspace) (Alt (lit_ci ''km/h'') (lit_ci ''mph'')))))"

definition visibility_rx :: rx where
  "visibility_rx = Seq (lit_ci ''visibility'')
                     (Seq (StarL any_char) (Seq (Grp decimal)
                       (Seq (StarG py_isspace) (lit_ci ''km''))))"

definition uv_rx :: rx where
  "uv_rx = Seq (lit_ci ''uv'') (Seq (StarL any_char) (Grp digits1))"

text \<open>\<^verbatim>\<open>int(m.group(1)) if m else None\<close> and \<^verbatim>\<open>float(m.group(1)) if m else None\<close>.\<close>

definition int_of_match :: "string option option \<Rightarrow> error + int option" where
  "int_of_match m =
     (case m of None \<Rightarrow> Inr None
      | Some g \<Rightarrow> (case py_int (group1 g) of Inl e \<Rightarrow> Inl e | Inr n \<Rightarrow> Inr (Some n)))"

definition float_of_match :: "string option option \<Rightarrow> error + pyfloat option" where
  "float_of_match m =
     (case m of None \<Rightarrow> Inr None
      | Some g \<Rightarrow> (case py_float_str (group1 g) of Inl e \<Rightarrow> Inl e | Inr x \<Rightarrow> Inr (Some x)))"

definition extract_humidity :: "string \<Rightarrow> error + int option" where
  "extract_humidity t = int_of_match (re_search humidity_rx t)"

definition extract_pressure :: "string \<Rightarrow> error + pyfloat option" where
  "extract_pressure t = float_of_match (re_search pressure_rx t)"

definition extract_wind_speed :: "string \<Rightarrow> error + pyfloat option" where
  "extract_wind_speed t = float_of_match (re_search wind_rx t)"

definition extract_visibility :: "string \<Rightarrow> error + pyfloat option" where
  "extract_visibility t = float_of_match (re_search visibility_rx t)"

definition extract_uv_index :: "string \<Rightarrow> error + int option" where
  "extract_uv_index t = int_of_match (re_search uv_rx t)"

subsection \<open>Wind direction and air quality\<close>

definition directions :: "string list" where
  "directions = [''N'', ''NE'', ''E'', ''SE'', ''S'', ''SW'', ''W'', ''NW'',
                 ''North'', ''South'', ''East'', ''West'']"

definition direction_hit :: "string \<Rightarrow> string \<Rightarrow> bool" where
  "direction_hit direction text_content =
     (py_in ('' '' @ direction @ '' '') text_content
      \<or> py_in (direction @ ''E'') text_content
      \<or> py_in (direction @ ''W'') text_content)"

fun direction_loop :: "string list \<Rightarrow> string \<Rightarrow> string option" where
  "direction_loop [] text_content = None"
| "direction_loop (d # ds) text_content =
     (if direction_hit d text_content then Some d else direction_loop ds text_content)"

definition extract_wind_direction :: "string \<Rightarrow> string option" where
  "extract_wind_direction t = direction_loop directions t"

definition aqi_qualities :: "string list" where
  "aqi_qualities = [''good'', ''moderate'', ''unhealthy'', ''hazardous'', ''excellent'']"

fun quality_loop :: "string list \<Rightarrow> string \<Rightarrow> string option" where
  "quality_loop [] text_content = None"
| "quality_loop (q # qs) text_content =
     (if py_in q text_content then Some (py_title q) else quality_loop qs text_content)"

definition extract_air_quality :: "string \<Rightarrow> string option" where
  "extract_air_quality t = quality_loop aqi_qualities (py_lower t)"

subsection \<open>The assembler \<^verbatim>\<open>_extract_current_weather\<close>\<close>

text \<open>
  The body of the \<^verbatim>\<open>try\<close> block, with an exception as \<open>Inl\<close>; the function itself turns
  every exception into \<^verbatim>\<open>None\<close>.
\<close>

definition current_weather_body :: "string \<Rightarrow> error + CurrentWeather" where
  "current_weather_body t =
     (case temp_loop temp_patterns t of
        Inl e \<Rightarrow> Inl e
      | Inr found \<Rightarrow>
          (let (temp_celsius, temp_fahrenheit) =
                 (case found of None \<Rightarrow> (25, 77) | Some p \<Rightarrow> p)
           in case extract_humidity t of Inl e \<Rightarrow> Inl e | Inr h \<Rightarrow>
              case extract_pressure t of Inl e \<Rightarrow> Inl e | Inr p \<Rightarrow>
              case extract_wind_speed t of Inl e \<Rightarrow> Inl e | Inr ws \<Rightarrow>
              case extract_visibility t of Inl e \<Rightarrow> Inl e | Inr vis \<Rightarrow>
              case extract_uv_index t of Inl e \<Rightarrow> Inl e | Inr uv \<Rightarrow>
                Inr \<lparr> temperature = temp_celsius,
                      temperature_fahrenheit = Some temp_fahrenheit,
                      condition = extract_condition t,
                      humidity = h,
                      pressure = p,
                      wind_speed = ws,
                      wind_direction = extract_wind_direction t,
                      visibility = vis,
                      uv_index = uv,
                      air_quality = extract_air_quality t \<rparr>))"

definition extract_current_weather :: "string \<Rightarrow> CurrentWeather option" where
  "extract_current_weather t =
     (case current_weather_body t of Inl e \<Rightarrow> None | Inr cw \<Rightarrow> Some cw)"

section \<open>Forecast synthesis\<close>

text \<open>
  \<^verbatim>\<open>datetime.now()\<close> is read once in every round of the two forecast loops. A reading is
  a \<open>datetime\<close>: the proleptic Gregorian ordinal of its day (\<^verbatim>\<open>toordinal()\<close>, day 1 is
  0001-01-01) and the microseconds since midnight. The clock is the function from the
  round to the reading. Adding a \<^verbatim>\<open>timedelta\<close> of whole days raises \<^verbatim>\<open>OverflowError\<close>
  outside the range of \<^verbatim>\<open>timedelta\<close> or of \<^verbatim>\<open>datetime\<close> (years 1 to 9999).
\<close>

record datetime =
  toordinal :: int
  day_us :: nat

definition max_ordinal :: int where
  "max_ordinal = 3652059"

definition add_days :: "datetime \<Rightarrow> int \<Rightarrow> error + datetime" where
  "add_days dt i =
     (if 999999999 < \<bar>i\<bar> then Inl OverflowError
      else let n = toordinal dt + i
           in if n < 1 \<or> max_ordinal < n then Inl OverflowError
              else Inr (dt\<lparr>toordinal := n\<rparr>))"

text \<open>The conversion of an ordinal to year, month and day of \<^verbatim>\<open>datetime\<close>.\<close>

definition days_in_month :: "int list" where
  "days_in_month = [-1, 31, 28, 31, 30, 31, 30, 31, 31, 30, 31, 30, 31]"

definition days_before_month :: "int list" where
  "days_before_month = [-1, 0, 31, 59, 90, 120, 151, 181, 212, 243, 273, 304, 334]"

definition ord2ymd :: "int \<Rightarrow> int \<times> int \<times> int" where
  "ord2ymd ordinal =
     (let n = ordinal - 1;
          n400 = n div 146097; r400 = n mod 146097;
          n100 = r400 div 36524; r100 = r400 mod 36524;
          n4 = r100 div 1461; r4 = r100 mod 1461;
          n1 = r4 div 365; r1 = r4 mod 365;
          year = n400 * 400 + 1 + n100 * 100 + n4 * 4 + n1
      in if n1 = 4 \<or> n100 = 4 then (year - 1, 12, 31)
         else
           let leapyear = (n1 = 3 \<and> (n4 \<noteq> 24 \<or> n100 = 3));
               month = (r1 + 50) div 32;
               preceding = days_before_month ! nat month
                             + (if 2 < month \<and> leapyear then 1 else 0)
           in if r1 < preceding
              then (year, month - 1,
                    r1 - (preceding - (days_in_month ! nat (month - 1)
                                         + (if month - 1 = 2 \<and> leapyear then 1 else 0))) + 1)
              else (year, month, r1 - preceding + 1))"

text \<open>\<^verbatim>\<open>str(n)\<close> of an integer, and zero padding to a width.\<close>

fun str_nat :: "nat \<Rightarrow> string" where
  "str_nat n =
     (if n < 10 then [char_of (48 + n)]
      else str_nat (n div 10) @ [char_of (48 + n mod 10)])"

declare str_nat.simps [simp del]

definition py_str_int :: "int \<Rightarrow> string" where
  "py_str_int i = (if i < 0 then CHR ''-'' # str_nat (nat (- i)) else str_nat (nat i))"

definition zero_pad :: "nat \<Rightarrow> string \<Rightarrow> string" where
  "zero_pad width s = replicate (width - length s) CHR ''0'' @ s"

text \<open>\<^verbatim>\<open>strftime("%Y-%m-%d")\<close>, for the years from 1000 on.\<close>

definition date_string :: "int \<Rightarrow> string" where
  "date_string ordinal =
     (let (y, m, d) = ord2ymd ordinal
      in zero_pad 4 (py_str_int y) @ ''-'' @ zero_pad 2 (py_str_int m)
           @ ''-'' @ zero_pad 2 (py_str_int d))"

definition strftime_ymd :: "datetime \<Rightarrow> string" where
  "strftime_ymd dt = date_string (toordinal dt)"

record DailyForecast =
  date :: string
  high_temp :: pyfloat
  low_temp :: pyfloat
  condition :: string
  precipitation_chance :: "int option"

text \<open>The loop of \<^verbatim>\<open>_extract_forecast_data\<close> over \<^verbatim>\<open>range(7)\<close>.\<close>

fun daily_loop :: "(nat \<Rightarrow> datetime) \<Rightarrow> nat list \<Rightarrow> error + DailyForecast list" where
  "daily_loop clock [] = Inr []"
| "daily_loop clock (i # rest) =
     (case add_days (clock i) (int i) of
        Inl e \<Rightarrow> Inl e
      | Inr d \<Rightarrow>
          (case daily_loop clock rest of
             Inl e \<Rightarrow> Inl e
           | Inr forecast_list \<Rightarrow>
               Inr (\<lparr> date = strftime_ymd d,
                      high_temp = 28 + of_nat i,
                      low_temp = 22 + of_nat i,
                      condition = ''Partly Cloudy'',
                      precipitation_chance = Some 30 \<rparr> # forecast_list)))"

definition extract_forecast_data :: "(nat \<Rightarrow> datetime) \<Rightarrow> DailyForecast list option" where
  "extract_forecast_data clock =
     (case daily_loop clock [0..<7] of Inl e \<Rightarrow> None | Inr forecast_list \<Rightarrow> Some forecast_list)"

text \<open>
  \<^verbatim>\<open>scrape_forecast_data\<close> returns a dictionary with string keys; its entries are
  dictionaries again.
\<close>

datatype pyval = PStr string | PInt int | PList "pyval list" | PDict "(string \<times> pyval) list"

definition forecast_entry :: "datetime \<Rightarrow> nat \<Rightarrow> pyval" where
  "forecast_entry d i =
     PDict [(''date'', PStr (strftime_ymd d)),
            (''high_temp'', PInt (28 + (int i mod 3))),
            (''low_temp'', PInt (22 + (int i mod 2))),
            (''condition'', PStr ''Partly Cloudy''),
            (''precipitation'', PStr (py_str_int (30 + (int i * 5)) @ ''%''))]"

fun entry_loop :: "(nat \<Rightarrow> datetime) \<Rightarrow> nat list \<Rightarrow> error + pyval list" where
  "entry_loop clock [] = Inr []"
| "entry_loop clock (i # rest) =
     (case add_days (clock i) (int i) of
        Inl e \<Rightarrow> Inl e
      | Inr d \<Rightarrow>
          (case entry_loop clock rest of
             Inl e \<Rightarrow> Inl e
           | Inr entries \<Rightarrow> Inr (forecast_entry d i # entries)))"

definition scrape_forecast_data :: "(nat \<Rightarrow> datetime) \<Rightarrow> string \<Rightarrow> int \<Rightarrow> pyval option" where
  "scrape_forecast_data clock city days =
     (case entry_loop clock [0..<nat days] of
        Inl e \<Rightarrow> None
      | Inr entries \<Rightarrow>
          Some (PDict [(''city'', PStr city),
                       (''forecast_days'', PInt days),
                       (''forecast'', PList entries)]))"

text \<open>The list under the key \<^verbatim>\<open>"forecast"\<close> of a result.\<close>

definition forecast_of :: "pyval \<Rightarrow> pyval list" where
  "forecast_of v =
     (case v of
        PDict kvs \<Rightarrow> (case map_of kvs ''forecast'' of Some (PList es) \<Rightarrow> es | _ \<Rightarrow> [])
      | _ \<Rightarrow> [])"

definition field :: "pyval \<Rightarrow> string \<Rightarrow> pyval option" where
  "field v k = (case v of PDict kvs \<Rightarrow> map_of kvs k | _ \<Rightarrow> None)"

section \<open>The record builder \<^verbatim>\<open>_parse_bing_weather\<close>\<close>

record WeatherResponse =
  city :: string
  state :: "string option"
  country :: string
  current_weather :: CurrentWeather
  forecast :: "DailyForecast list option"
  last_updated :: datetime
  data_source :: string

text \<open>\<^verbatim>\<open>country or "India"\<close>: \<^verbatim>\<open>None\<close> and the empty string are both false.\<close>

definition country_or_india :: "string option \<Rightarrow> string" where
  "country_or_india country_arg =
     (case country_arg of None \<Rightarrow> ''India'' | Some c \<Rightarrow> if c = [] then ''India'' else c)"

text \<open>
  \<open>t\<close> is \<^verbatim>\<open>soup.get_text()\<close>, \<open>clock\<close> the readings of the forecast loop and \<open>updated\<close> the
  reading taken for \<^verbatim>\<open>last_updated\<close>.
\<close>

definition parse_bing_weather ::
  "(nat \<Rightarrow> datetime) \<Rightarrow> datetime \<Rightarrow> string \<Rightarrow> string \<Rightarrow> string option \<Rightarrow> string option
     \<Rightarrow> WeatherResponse option" where
  "parse_bing_weather clock updated t city_arg state_arg country_arg =
     (case extract_current_weather t of
        None \<Rightarrow> None
      | Some cw \<Rightarrow>
          Some \<lparr> city = city_arg,
                 state = state_arg,
                 country = country_or_india country_arg,
                 current_weather = cw,
                 forecast = extract_forecast_data clock,
                 last_updated = updated,
                 data_source = ''Bing Weather'' \<rparr>)"

section \<open>City names\<close>

text \<open>
  \<^verbatim>\<open>validate_city_name\<close> of \<^verbatim>\<open>utils/helpers.py\<close> and of \<^verbatim>\<open>CityValidator\<close> in
  \<^verbatim>\<open>utils/validators.py\<close>: the same body twice. The pattern is
  \<^verbatim>\<open>^[a-zA-Z\s\-'\.]+$\<close> without flags, given to \<^verbatim>\<open>re.match\<close>, which starts at the first
  character.
\<close>

definition py_strip :: "string \<Rightarrow> string" where
  "py_strip s = rev (dropWhile py_isspace (rev (dropWhile py_isspace s)))"

definition city_char :: "char \<Rightarrow> bool" where
  "city_char c =
     (is_lower_ascii c \<or> is_upper_ascii c \<or> py_isspace c
      \<or> c = CHR ''-'' \<or> c = CHR 0x27 \<or> c = CHR ''.'')"

definition city_rx :: rx where
  "city_rx = Seq (PlusG city_char) Eol"

definition validate_city_name :: "string \<Rightarrow> bool" where
  "validate_city_name city_arg =
     (if city_arg = [] \<or> length (py_strip city_arg) < 2 then False
      else re_match city_rx (py_strip city_arg) \<noteq> None)"

definition CityValidator_validate_city_name :: "string \<Rightarrow> bool" where
  "CityValidator_validate_city_name city_arg =
     (if city_arg = [] \<or> length (py_strip city_arg) < 2 then False
      else re_match city_rx (py_strip city_arg) \<noteq> None)"

section \<open>The backtracking matcher and the language of a pattern\<close>



lemma set_lazy_rests:
  "set (lazy_rests p s) = {s'. \<exists>w. s = w @ s' \<and> (\<forall>c\<in>set w. p c)}"
proof (induction s)
  case Nil
  then show ?case by auto
next
  case (Cons x xs)
  show ?case
  proof (intro set_eqI iffI)
    fix s' assume "s' \<in> set (lazy_rests p (x # xs))"
    then consider "s' = x # xs" | "p x" "s' \<in> set (lazy_rests p xs)"
      by (auto split: if_splits)
    then show "s' \<in> {s'. \<exists>w. x # xs = w @ s' \<and> (\<forall>c\<in>set w. p c)}"
    proof cases
      case 1
      then show ?thesis by auto
    next
      case 2
      then obtain w where "xs = w @ s'" "\<forall>c\<in>set w. p c" using Cons.IH by auto
      then have "x # xs = (x # w) @ s' \<and> (\<forall>c\<in>set (x # w). p c)" using 2 by simp
      then show ?thesis by blast
    qed
  next
    fix s' assume "s' \<in> {s'. \<exists>w. x # xs = w @ s' \<and> (\<forall>c\<in>set w. p c)}"
    then obtain w where w: "x # xs = w @ s'" "\<forall>c\<in>set w. p c" by auto
    show "s' \<in> set (lazy_rests p (x # xs))"
    proof (cases w)
      case Nil
      then have "s' = x # xs" using w by simp
      then show ?thesis by simp
    next
      case (Cons y ys)
      then have "p x" "xs = ys @ s'" "\<forall>c\<in>set ys. p c" using w by auto
      then show ?thesis using Cons.IH by auto
    qed
  qed
qed

lemma run_rests:
  "fst ` set (run r (s, g)) = {s'. \<exists>w. s = w @ s' \<and> w \<in> lang r s'}"
proof (induction r arbitrary: s g)
  case Eps
  then show ?case by auto
next
  case (Sym p)
  then show ?case by (cases s) (auto simp: image_iff)
next
  case (Seq a b)
  show ?case
  proof (intro set_eqI iffI)
    fix s' assume "s' \<in> fst ` set (run (Seq a b) (s, g))"
    then obtain g' m gm where m: "(m, gm) \<in> set (run a (s, g))" and s': "(s', g') \<in> set (run b (m, gm))"
      by auto
    from m have "m \<in> fst ` set (run a (s, g))" by force
    then obtain u where u: "s = u @ m" "u \<in> lang a m" using Seq.IH(1) by auto
    from s' have "s' \<in> fst ` set (run b (m, gm))" by force
    then obtain v where v: "m = v @ s'" "v \<in> lang b s'" using Seq.IH(2) by auto
    have "s = (u @ v) @ s'" using u v by simp
    moreover have "u @ v \<in> lang (Seq a b) s'" using u v by auto
    ultimately show "s' \<in> {s'. \<exists>w. s = w @ s' \<and> w \<in> lang (Seq a b) s'}" by blast
  next
    fix s' assume "s' \<in> {s'. \<exists>w. s = w @ s' \<and> w \<in> lang (Seq a b) s'}"
    then obtain u v where uv: "s = (u @ v) @ s'" "v \<in> lang b s'" "u \<in> lang a (v @ s')" by auto
    then have "v @ s' \<in> fst ` set (run a (s, g))" using Seq.IH(1)[of s g] by auto
    then obtain gm where gm: "(v @ s', gm) \<in> set (run a (s, g))" by auto
    have "s' \<in> fst ` set (run b (v @ s', gm))" using Seq.IH(2)[of "v @ s'" gm] uv by auto
    then obtain g' where "(s', g') \<in> set (run b (v @ s', gm))" by auto
    then have "(s', g') \<in> set (run (Seq a b) (s, g))" using gm by auto
    then show "s' \<in> fst ` set (run (Seq a b) (s, g))" by force
  qed
next
  case (Alt a b)
  then show ?case by (auto simp: image_Un)
next
  case (Opt a)
  then show ?case by auto
next
  case (PlusG p)
  show ?case
  proof (cases s)
    case Nil
    then show ?thesis by auto
  next
    case (Cons x xs)
    show ?thesis
    proof (cases "p x")
      case True
      have "fst ` set (run (PlusG p) (s, g)) = set (lazy_rests p xs)"
        using Cons True by (auto simp: image_iff)
      also have "\<dots> = {s'. \<exists>w. xs = w @ s' \<and> (\<forall>c\<in>set w. p c)}" by (rule set_lazy_rests)
      also have "\<dots> = {s'. \<exists>w. s = w @ s' \<and> w \<in> lang (PlusG p) s'}"
      proof (intro set_eqI iffI)
        fix s' assume "s' \<in> {s'. \<exists>w. xs = w @ s' \<and> (\<forall>c\<in>set w. p c)}"
        then obtain w where "xs = w @ s'" "\<forall>c\<in>set w. p c" by auto
        then have "s = (x # w) @ s' \<and> x # w \<in> lang (PlusG p) s'" using Cons True by simp
        then show "s' \<in> {s'. \<exists>w. s = w @ s' \<and> w \<in> lang (PlusG p) s'}" by blast
      next
        fix s' assume "s' \<in> {s'. \<exists>w. s = w @ s' \<and> w \<in> lang (PlusG p) s'}"
        then obtain w where w: "s = w @ s'" "w \<noteq> []" "\<forall>c\<in>set w. p c" by auto
        then obtain y ys where "w = y # ys" by (cases w) auto
        then have "xs = ys @ s' \<and> (\<forall>c\<in>set ys. p c)" using w Cons by auto
        then show "s' \<in> {s'. \<exists>w. xs = w @ s' \<and> (\<forall>c\<in>set w. p c)}" by blast
      qed
      finally show ?thesis .
    next
      case False
      have "\<And>w s'. s = w @ s' \<Longrightarrow> w \<noteq> [] \<Longrightarrow> \<forall>c\<in>set w. p c \<Longrightarrow> False"
        using Cons False by (case_tac w) auto
      then show ?thesis using Cons False by auto
    qed
  qed
next
  case (StarG p)
  have "fst ` set (run (StarG p) (s, g)) = set (lazy_rests p s)" by (auto simp: image_iff)
  then show ?case by (simp add: set_lazy_rests)
next
  case (StarL p)
  have "fst ` set (run (StarL p) (s, g)) = set (lazy_rests p s)" by (auto simp: image_iff)
  then show ?case by (simp add: set_lazy_rests)
next
  case (Grp a)
  have "fst ` set (run (Grp a) (s, g)) = fst ` set (run a (s, g))"
    by (force simp: image_iff split: prod.splits)
  then show ?case using Grp.IH by simp
next
  case Eol
  then show ?case by auto
qed

lemma re_match_None:
  "re_match r s = None \<longleftrightarrow> \<not> (\<exists>w post. s = w @ post \<and> w \<in> lang r post)"
proof -
  have "re_match r s = None \<longleftrightarrow> run r (s, None) = []"
    by (auto simp: re_match_def split: list.splits)
  also have "\<dots> \<longleftrightarrow> fst ` set (run r (s, None)) = {}" by simp
  also have "\<dots> \<longleftrightarrow> \<not> (\<exists>w post. s = w @ post \<and> w \<in> lang r post)"
    unfolding run_rests by auto
  finally show ?thesis .
qed

lemma re_search_None: "re_search r t = None \<longleftrightarrow> \<not> matches_in r t"
proof (induction t)
  case Nil
  then show ?case by (simp add: re_match_None matches_in_def)
next
  case (Cons x xs)
  have "matches_in r (x # xs) \<longleftrightarrow>
          (\<exists>w post. x # xs = w @ post \<and> w \<in> lang r post) \<or> matches_in r xs"
  proof
    assume "matches_in r (x # xs)"
    then obtain pre w post where d: "x # xs = pre @ w @ post" "w \<in> lang r post"
      by (auto simp: matches_in_def)
    show "(\<exists>w post. x # xs = w @ post \<and> w \<in> lang r post) \<or> matches_in r xs"
    proof (cases pre)
      case Nil
      then show ?thesis using d by auto
    next
      case (Cons y ys)
      then have "xs = ys @ w @ post" using d by simp
      then show ?thesis using d(2) by (auto simp: matches_in_def)
    qed
  next
    assume "(\<exists>w post. x # xs = w @ post \<and> w \<in> lang r post) \<or> matches_in r xs"
    then show "matches_in r (x # xs)"
    proof
      assume "\<exists>w post. x # xs = w @ post \<and> w \<in> lang r post"
      then obtain w post where "x # xs = [] @ w @ post" "w \<in> lang r post" by auto
      then show ?thesis unfolding matches_in_def by blast
    next
      assume "matches_in r xs"
      then obtain pre w post where "xs = pre @ w @ post" "w \<in> lang r post"
        by (auto simp: matches_in_def)
      then have "x # xs = (x # pre) @ w @ post" by simp
      then show ?thesis using \<open>w \<in> lang r post\<close> unfolding matches_in_def by blast
    qed
  qed
  then show ?case
  proof (cases "re_match r (x # xs)")
    case None
    then show ?thesis using Cons.IH \<open>matches_in r (x # xs) \<longleftrightarrow> _\<close> re_match_None[of r "x # xs"]
      by simp
  next
    case (Some g)
    then have "\<exists>w post. x # xs = w @ post \<and> w \<in> lang r post"
      using re_match_None[of r "x # xs"] by auto
    then show ?thesis using Some \<open>matches_in r (x # xs) \<longleftrightarrow> _\<close> by simp
  qed
qed


lemma run_member:
  assumes "(s', g') \<in> set (run r (s, g))"
  shows "\<exists>w. s = w @ s' \<and> w \<in> lang r s'"
proof -
  from assms have "s' \<in> fst ` set (run r (s, g))" by force
  then show ?thesis unfolding run_rests by simp
qed

lemma run_capture:
  "grp_all P r \<Longrightarrow> (s', g') \<in> set (run r (s, g)) \<Longrightarrow> g' = g \<or> (\<exists>w. g' = Some w \<and> P w)"
proof (induction r arbitrary: s g s' g')
  case (Seq a b)
  from Seq.prems(2) obtain m gm where m: "(m, gm) \<in> set (run a (s, g))"
    and s': "(s', g') \<in> set (run b (m, gm))" by auto
  from Seq.IH(1)[OF _ m] Seq.prems(1) have 1: "gm = g \<or> (\<exists>w. gm = Some w \<and> P w)" by simp
  from Seq.IH(2)[OF _ s'] Seq.prems(1) have 2: "g' = gm \<or> (\<exists>w. g' = Some w \<and> P w)" by simp
  from 1 2 show ?case by auto
next
  case (Grp a)
  from Grp.prems(2) obtain ga where ga: "(s', ga) \<in> set (run a (s, g))"
    and g': "g' = Some (take (length s - length s') s)" by auto
  from run_member[OF ga] obtain w where w: "s = w @ s'" "w \<in> lang a s'" by auto
  then have "take (length s - length s') s = w" by simp
  moreover have "P w" using Grp.prems(1) w(2) by auto
  ultimately show ?case using g' by simp
next
  case (Alt a b)
  from Alt.prems(2) have "(s', g') \<in> set (run a (s, g)) \<or> (s', g') \<in> set (run b (s, g))"
    by simp
  then show ?case using Alt.IH Alt.prems(1) by fastforce
next
  case (Opt a)
  from Opt.prems(2) have "(s', g') \<in> set (run a (s, g)) \<or> g' = g" by auto
  then show ?case using Opt.IH Opt.prems(1) by fastforce
qed (auto split: list.splits if_splits)

lemma run_capture_sure:
  "grp_all P r \<Longrightarrow> grp_sure r \<Longrightarrow> (s', g') \<in> set (run r (s, g)) \<Longrightarrow> \<exists>w. g' = Some w \<and> P w"
proof (induction r arbitrary: s g s' g')
  case (Seq a b)
  from Seq.prems(3) obtain m gm where m: "(m, gm) \<in> set (run a (s, g))"
    and s': "(s', g') \<in> set (run b (m, gm))" by auto
  have pa: "grp_all P a" and pb: "grp_all P b" using Seq.prems(1) by auto
  show ?case
  proof (cases "grp_sure b")
    case True
    then show ?thesis using Seq.IH(2)[OF pb _ s'] by simp
  next
    case False
    then have "grp_sure a" using Seq.prems(2) by simp
    then have "\<exists>w. gm = Some w \<and> P w" using Seq.IH(1)[OF pa _ m] by simp
    then show ?thesis using run_capture[OF pb s'] by auto
  qed
next
  case (Alt a b)
  then show ?case by auto
next
  case (Grp a)
  from Grp.prems(3) obtain ga where ga: "(s', ga) \<in> set (run a (s, g))"
    and g': "g' = Some (take (length s - length s') s)" by auto
  from run_member[OF ga] obtain w where w: "s = w @ s'" "w \<in> lang a s'" by auto
  then have "take (length s - length s') s = w" by simp
  moreover have "P w" using Grp.prems(1) w(2) by auto
  ultimately show ?case using g' by simp
qed auto

lemma re_match_Some:
  assumes "re_match r s = Some g"
  shows "\<exists>s'. (s', g) \<in> set (run r (s, None))"
  using assms by (auto simp: re_match_def split: list.splits)

lemma re_search_Some:
  "re_search r t = Some g \<Longrightarrow> \<exists>s s'. (s', g) \<in> set (run r (s, None))"
proof (induction t)
  case Nil
  then show ?case using re_match_Some by fastforce
next
  case (Cons x xs)
  show ?case
  proof (cases "re_match r (x # xs)")
    case None
    then show ?thesis using Cons by simp
  next
    case (Some g0)
    then have "g0 = g" using Cons.prems by simp
    then show ?thesis using re_match_Some Some by blast
  qed
qed

lemma findall_search_None: "findall_from r 0 t = [] \<longleftrightarrow> re_search r t = None"
  by (induction t) (auto simp: re_match_def split: list.splits)


lemma re_findall_Nil: "re_findall r t = [] \<longleftrightarrow> \<not> matches_in r t"
  by (simp add: re_findall_def findall_search_None re_search_None)




lemma run_capture_sublist:
  "(s', g') \<in> set (run r (s, g)) \<Longrightarrow> g' = g \<or> (\<exists>w. g' = Some w \<and> sublist w s)"
proof (induction r arbitrary: s g s' g')
  case (Seq a b)
  from Seq.prems obtain m gm where m: "(m, gm) \<in> set (run a (s, g))"
    and s': "(s', g') \<in> set (run b (m, gm))" by auto
  from run_member[OF m] obtain u where u: "s = u @ m" by blast
  from Seq.IH(1)[OF m] have 1: "gm = g \<or> (\<exists>w. gm = Some w \<and> sublist w s)" .
  from Seq.IH(2)[OF s'] have 2: "g' = gm \<or> (\<exists>w. g' = Some w \<and> sublist w m)" .
  have "\<And>w. sublist w m \<Longrightarrow> sublist w s"
    unfolding u sublist_def by (metis append_assoc)
  then show ?case using 1 2 by blast
next
  case (Grp a)
  from Grp.prems obtain ga where ga: "(s', ga) \<in> set (run a (s, g))"
    and g': "g' = Some (take (length s - length s') s)" by auto
  from run_member[OF ga] obtain w where w: "s = w @ s'" by blast
  then have "take (length s - length s') s = w" by simp
  moreover have "sublist w s" unfolding w sublist_def by (metis append_Nil)
  ultimately show ?case using g' by simp
next
  case (Alt a b)
  from Alt.prems have "(s', g') \<in> set (run a (s, g)) \<or> (s', g') \<in> set (run b (s, g))"
    by simp
  then show ?case using Alt.IH by blast
next
  case (Opt a)
  from Opt.prems have "(s', g') \<in> set (run a (s, g)) \<or> g' = g" by auto
  then show ?case using Opt.IH by blast
qed (auto split: list.splits if_splits)

lemma re_search_Some_suffix:
  "re_search r t = Some g \<Longrightarrow> \<exists>s s'. suffix s t \<and> (s', g) \<in> set (run r (s, None))"
proof (induction t)
  case Nil
  then have "re_match r [] = Some g" by simp
  from re_match_Some[OF this] obtain s' where "(s', g) \<in> set (run r ([], None))" by blast
  moreover have "suffix [] ([]::string)" by simp
  ultimately show ?case by blast
next
  case (Cons x xs)
  show ?case
  proof (cases "re_match r (x # xs)")
    case None
    then have "re_search r xs = Some g" using Cons.prems by simp
    from Cons.IH[OF this] obtain s s' where s: "suffix s xs"
      and m: "(s', g) \<in> set (run r (s, None))" by blast
    from s have "suffix s (x # xs)" by (rule suffix_ConsI)
    then show ?thesis using m by blast
  next
    case (Some g0)
    then have "re_match r (x # xs) = Some g" using Cons.prems by simp
    from re_match_Some[OF this] obtain s' where m: "(s', g) \<in> set (run r (x # xs, None))"
      by blast
    have "suffix (x # xs) (x # xs)" by simp
    then show ?thesis using m by blast
  qed
qed

lemma re_search_capture_sublist:
  assumes "re_search r t = Some (Some w)"
  shows "sublist w t"
proof -
  from re_search_Some_suffix[OF assms] obtain s s' where s: "suffix s t"
    and m: "(s', Some w) \<in> set (run r (s, None))" by blast
  from run_capture_sublist[OF m] have "sublist w s" by auto
  moreover have "sublist s t" using s by (rule suffix_imp_sublist)
  ultimately show ?thesis unfolding sublist_def by (metis append_assoc)
qed


section \<open>Forecast synthesis: the two loops\<close>

lemma add_days_ok:
  assumes "1 \<le> toordinal dt + i" "toordinal dt + i \<le> max_ordinal" "\<bar>i\<bar> \<le> 999999999"
  shows "add_days dt i = Inr (dt\<lparr>toordinal := toordinal dt + i\<rparr>)"
  using assms by (simp add: add_days_def Let_def)

lemma add_days_Inr:
  assumes "add_days dt i = Inr d"
  shows "toordinal d = toordinal dt + i"
  using assms by (auto simp: add_days_def Let_def split: if_splits)

lemma add_days_beyond:
  assumes "max_ordinal < toordinal dt + i"
  shows "add_days dt i = Inl OverflowError"
  using assms by (simp add: add_days_def Let_def)

lemma add_days_same_day:
  assumes "toordinal d1 = toordinal d2"
  shows "(case add_days d1 i of Inl e \<Rightarrow> Inl e | Inr d \<Rightarrow> Inr (toordinal d))
       = (case add_days d2 i of Inl e \<Rightarrow> Inl e | Inr d \<Rightarrow> Inr (toordinal d))"
  using assms by (simp add: add_days_def Let_def)

lemma daily_loop_closed:
  assumes "\<forall>i\<in>set ixs. toordinal (clock i) = today \<and> 1 \<le> today + int i
             \<and> today + int i \<le> max_ordinal \<and> int i \<le> 999999999"
  shows "daily_loop clock ixs =
           Inr (map (\<lambda>i. \<lparr> date = date_string (today + int i),
                           high_temp = 28 + of_nat i,
                           low_temp = 22 + of_nat i,
                           condition = ''Partly Cloudy'',
                           precipitation_chance = Some 30 \<rparr>) ixs)"
  using assms
proof (induction ixs)
  case Nil
  then show ?case by simp
next
  case (Cons i rest)
  have "add_days (clock i) (int i) = Inr ((clock i)\<lparr>toordinal := toordinal (clock i) + int i\<rparr>)"
    using Cons.prems by (intro add_days_ok) auto
  moreover have "toordinal (clock i) = today" using Cons.prems by simp
  ultimately show ?case using Cons by (simp add: strftime_ymd_def)
qed

lemma entry_loop_closed:
  assumes "\<forall>i\<in>set ixs. toordinal (clock i) = today \<and> 1 \<le> today + int i
             \<and> today + int i \<le> max_ordinal \<and> int i \<le> 999999999"
  shows "entry_loop clock ixs =
           Inr (map (\<lambda>i. PDict [(''date'', PStr (date_string (today + int i))),
                                 (''high_temp'', PInt (28 + (int i mod 3))),
                                 (''low_temp'', PInt (22 + (int i mod 2))),
                                 (''condition'', PStr ''Partly Cloudy''),
                                 (''precipitation'', PStr (py_str_int (30 + (int i * 5)) @ ''%''))])
                    ixs)"
  using assms
proof (induction ixs)
  case Nil
  then show ?case by simp
next
  case (Cons i rest)
  have "add_days (clock i) (int i) = Inr ((clock i)\<lparr>toordinal := toordinal (clock i) + int i\<rparr>)"
    using Cons.prems by (intro add_days_ok) auto
  moreover have "toordinal (clock i) = today" using Cons.prems by simp
  ultimately show ?case using Cons by (simp add: strftime_ymd_def forecast_entry_def)
qed

lemma entry_loop_overflow:
  assumes "i \<in> set ixs" "max_ordinal < toordinal (clock i) + int i"
  shows "\<exists>e. entry_loop clock ixs = Inl e"
  using assms
proof (induction ixs)
  case Nil
  then show ?case by simp
next
  case (Cons j rest)
  show ?case
  proof (cases "add_days (clock j) (int j)")
    case (Inl e)
    then show ?thesis by simp
  next
    case (Inr d)
    then have "j \<noteq> i" using Cons.prems add_days_beyond[of "clock i" "int i"] by auto
    then obtain e where "entry_loop clock rest = Inl e" using Cons by auto
    then show ?thesis using Inr by simp
  qed
qed

lemma entry_loop_members:
  assumes "entry_loop clock ixs = Inr es" "e \<in> set es"
  shows "\<exists>i d. i \<in> set ixs \<and> e = forecast_entry d i"
  using assms
proof (induction ixs arbitrary: es)
  case Nil
  then show ?case by simp
next
  case (Cons j rest)
  from Cons.prems(1) obtain d es' where d: "add_days (clock j) (int j) = Inr d"
    and es': "entry_loop clock rest = Inr es'" and es: "es = forecast_entry d j # es'"
    by (auto split: sum.splits)
  show ?case
  proof (cases "e = forecast_entry d j")
    case True
    then show ?thesis by auto
  next
    case False
    then have "e \<in> set es'" using Cons.prems(2) es by simp
    then show ?thesis using Cons.IH[OF es'] by auto
  qed
qed

lemma daily_loop_members:
  assumes "daily_loop clock ixs = Inr fl" "e \<in> set fl"
  shows "\<exists>i. i \<in> set ixs \<and> high_temp e = 28 + of_nat i \<and> low_temp e = 22 + of_nat i"
  using assms
proof (induction ixs arbitrary: fl)
  case Nil
  then show ?case by simp
next
  case (Cons j rest)
  from Cons.prems(1) obtain d fl' where d: "add_days (clock j) (int j) = Inr d"
    and fl': "daily_loop clock rest = Inr fl'"
    and fl: "fl = \<lparr> date = strftime_ymd d, high_temp = 28 + of_nat j, low_temp = 22 + of_nat j,
                     condition = ''Partly Cloudy'', precipitation_chance = Some 30 \<rparr> # fl'"
    by (auto split: sum.splits)
  show ?case
  proof (cases "e \<in> set fl'")
    case True
    then show ?thesis using Cons.IH[OF fl'] by auto
  next
    case False
    then have "e = \<lparr> date = strftime_ymd d, high_temp = 28 + of_nat j, low_temp = 22 + of_nat j,
                     condition = ''Partly Cloudy'', precipitation_chance = Some 30 \<rparr>"
      using Cons.prems(2) fl by simp
    then show ?thesis by auto
  qed
qed

lemma entry_loop_same_days:
  assumes "\<forall>i\<in>set ixs. toordinal (c1 i) = toordinal (c2 i)"
  shows "entry_loop c1 ixs = entry_loop c2 ixs"
  using assms
proof (induction ixs)
  case Nil
  then show ?case by simp
next
  case (Cons j rest)
  have eq: "toordinal (c1 j) = toordinal (c2 j)" using Cons.prems by simp
  have rest: "entry_loop c1 rest = entry_loop c2 rest" using Cons by simp
  show ?case
  proof (cases "add_days (c1 j) (int j)")
    case (Inl e)
    then have "add_days (c2 j) (int j) = Inl e"
      using eq by (auto simp: add_days_def Let_def split: if_splits)
    then show ?thesis using Inl by simp
  next
    case (Inr d)
    then obtain d' where d': "add_days (c2 j) (int j) = Inr d'" "toordinal d' = toordinal d"
      using eq by (auto simp: add_days_def Let_def split: if_splits)
    then have fe: "forecast_entry d j = forecast_entry d' j"
      by (simp add: forecast_entry_def strftime_ymd_def)
    show ?thesis by (simp add: Inr d'(1) rest fe split: sum.splits)
  qed
qed

section \<open>Strings: containment, lower case, stripping\<close>

lemma py_in_trans:
  assumes "py_in a b" "py_in b c"
  shows "py_in a c"
proof -
  from assms obtain p1 s1 p2 s2 where "b = p1 @ a @ s1" "c = p2 @ b @ s2"
    by (auto simp: py_in_def sublist_def)
  then have "c = (p2 @ p1) @ a @ (s1 @ s2)" by simp
  then show ?thesis unfolding py_in_def sublist_def by blast
qed

lemma py_in_lower_iff:
  "py_in k (py_lower t) \<longleftrightarrow> (\<exists>s. sublist s t \<and> py_lower s = k)"
proof
  assume "py_in k (py_lower t)"
  then obtain p q where "map py_lower_char t = p @ (k @ q)"
    by (auto simp: py_in_def py_lower_def sublist_def)
  then obtain tp tr where 1: "t = tp @ tr" "map py_lower_char tr = k @ q"
    by (metis map_eq_append_conv)
  then obtain ts tq where 2: "tr = ts @ tq" "map py_lower_char ts = k"
    by (metis map_eq_append_conv)
  from 1 2 have "t = tp @ ts @ tq" "map py_lower_char ts = k" by simp_all
  then show "\<exists>s. sublist s t \<and> py_lower s = k"
    unfolding py_lower_def sublist_def by blast
next
  assume "\<exists>s. sublist s t \<and> py_lower s = k"
  then obtain s p q where "t = p @ s @ q" "py_lower s = k" by (auto simp: sublist_def)
  then have "py_lower t = py_lower p @ k @ py_lower q" by (auto simp: py_lower_def)
  then show "py_in k (py_lower t)" unfolding py_in_def sublist_def by blast
qed

lemma py_strip_decomp:
  "\<exists>a b. s = a @ py_strip s @ b \<and> (\<forall>x\<in>set a. py_isspace x) \<and> (\<forall>x\<in>set b. py_isspace x)"
proof -
  let ?d = "dropWhile py_isspace s"
  have 1: "s = takeWhile py_isspace s @ ?d" by simp
  have 2: "?d = py_strip s @ rev (takeWhile py_isspace (rev ?d))"
    unfolding py_strip_def by (metis rev_append rev_rev_ident takeWhile_dropWhile_id)
  have "s = takeWhile py_isspace s @ py_strip s @ rev (takeWhile py_isspace (rev ?d))"
    using 1 2 by metis
  moreover have "\<forall>x\<in>set (takeWhile py_isspace s). py_isspace x"
    by (auto dest: set_takeWhileD)
  moreover have "\<forall>x\<in>set (rev (takeWhile py_isspace (rev ?d))). py_isspace x"
    by (auto dest: set_takeWhileD)
  ultimately show ?thesis by blast
qed

section \<open>City names: what the pattern accepts\<close>

lemma lang_city_rx:
  "w \<in> lang city_rx post \<longleftrightarrow>
     w \<noteq> [] \<and> (\<forall>c\<in>set w. city_char c) \<and> (post = [] \<or> post = [CHR 0x0A])"
  by (auto simp: city_rx_def)

lemma city_rx_match:
  "re_match city_rx s \<noteq> None \<longleftrightarrow> s \<noteq> [] \<and> (\<forall>x\<in>set s. city_char x)"
proof -
  have nl: "city_char (CHR 0x0A)" by (simp add: city_char_def py_isspace_def)
  have "re_match city_rx s \<noteq> None \<longleftrightarrow>
          (\<exists>w post. s = w @ post \<and> w \<noteq> [] \<and> (\<forall>c\<in>set w. city_char c)
                     \<and> (post = [] \<or> post = [CHR 0x0A]))"
    using re_match_None[of city_rx s] by (simp add: lang_city_rx)
  also have "\<dots> \<longleftrightarrow> s \<noteq> [] \<and> (\<forall>x\<in>set s. city_char x)"
  proof
    assume "\<exists>w post. s = w @ post \<and> w \<noteq> [] \<and> (\<forall>c\<in>set w. city_char c)
                     \<and> (post = [] \<or> post = [CHR 0x0A])"
    then show "s \<noteq> [] \<and> (\<forall>x\<in>set s. city_char x)" using nl by auto
  next
    assume "s \<noteq> [] \<and> (\<forall>x\<in>set s. city_char x)"
    then have "s = s @ [] \<and> s \<noteq> [] \<and> (\<forall>c\<in>set s. city_char c)" by simp
    then show "\<exists>w post. s = w @ post \<and> w \<noteq> [] \<and> (\<forall>c\<in>set w. city_char c)
                     \<and> (post = [] \<or> post = [CHR 0x0A])" by blast
  qed
  finally show ?thesis .
qed

lemma city_chars_strip:
  "(\<forall>x\<in>set (py_strip s). city_char x) \<longleftrightarrow> (\<forall>x\<in>set s. city_char x)"
proof -
  obtain a b where d: "s = a @ py_strip s @ b" "\<forall>x\<in>set a. py_isspace x" "\<forall>x\<in>set b. py_isspace x"
    using py_strip_decomp by blast
  have "set s = set a \<union> set (py_strip s) \<union> set b" using d(1) by (metis set_append Un_assoc)
  then show ?thesis using d(2,3) by (auto simp: city_char_def)
qed

lemma city_name_accepted_iff:
  "(if c = [] \<or> length (py_strip c) < 2 then False
    else re_match city_rx (py_strip c) \<noteq> None)
   \<longleftrightarrow> 2 \<le> length (py_strip c) \<and> (\<forall>x\<in>set c. city_char x)"
proof (cases "c = [] \<or> length (py_strip c) < 2")
  case True
  then show ?thesis by (auto simp: py_strip_def)
next
  case False
  then have "py_strip c \<noteq> []" by auto
  then show ?thesis using False city_rx_match[of "py_strip c"] city_chars_strip[of c] by auto
qed

section \<open>The keyword loops\<close>

lemma condition_loop_first:
  assumes "cs = pre @ k # post" "py_in k tc" "\<forall>k'\<in>set pre. \<not> py_in k' tc"
  shows "condition_loop cs tc = py_title k"
  using assms by (induction pre arbitrary: cs) auto

lemma condition_loop_none:
  assumes "\<forall>k\<in>set cs. \<not> py_in k tc"
  shows "condition_loop cs tc = ''Partly Cloudy''"
  using assms by (induction cs) auto

lemma condition_titles:
  "map py_title conditions =
     [''Sunny'', ''Cloudy'', ''Rainy'', ''Stormy'', ''Clear'', ''Overcast'',
      ''Partly Cloudy'', ''Mostly Cloudy'']"
  by code_simp

lemma cloudy_in_partly_mostly:
  "py_in ''cloudy'' ''partly cloudy''" "py_in ''cloudy'' ''mostly cloudy''"
  by code_simp+

lemma extract_condition_cases:
  "extract_condition t =
     (if py_in ''sunny'' (py_lower t) then ''Sunny''
      else if py_in ''cloudy'' (py_lower t) then ''Cloudy''
      else if py_in ''rainy'' (py_lower t) then ''Rainy''
      else if py_in ''stormy'' (py_lower t) then ''Stormy''
      else if py_in ''clear'' (py_lower t) then ''Clear''
      else if py_in ''overcast'' (py_lower t) then ''Overcast''
      else ''Partly Cloudy'')"
proof -
  have c1: "py_in ''partly cloudy'' (py_lower t) \<Longrightarrow> py_in ''cloudy'' (py_lower t)"
    using cloudy_in_partly_mostly(1) py_in_trans by blast
  have c2: "py_in ''mostly cloudy'' (py_lower t) \<Longrightarrow> py_in ''cloudy'' (py_lower t)"
    using cloudy_in_partly_mostly(2) py_in_trans by blast
  have titles: "py_title ''sunny'' = ''Sunny''" "py_title ''cloudy'' = ''Cloudy''"
    "py_title ''rainy'' = ''Rainy''" "py_title ''stormy'' = ''Stormy''"
    "py_title ''clear'' = ''Clear''" "py_title ''overcast'' = ''Overcast''"
    using condition_titles by (simp_all add: conditions_def)
  show ?thesis
  proof (cases "py_in ''cloudy'' (py_lower t)")
    case True
    then show ?thesis
      by (simp add: extract_condition_def conditions_def titles)
  next
    case False
    then have "\<not> py_in ''partly cloudy'' (py_lower t)" "\<not> py_in ''mostly cloudy'' (py_lower t)"
      using c1 c2 by blast+
    then show ?thesis using False
      by (simp add: extract_condition_def conditions_def titles)
  qed
qed

section \<open>What the capture groups hold\<close>

lemma digit_not_dot: "is_digit c \<Longrightarrow> c \<noteq> CHR ''.''"
  by (auto simp: is_digit_def)

lemma ci_dot: "ci (CHR ''.'') x \<longleftrightarrow> x = CHR ''.''"
proof
  assume h: "ci (CHR ''.'') x"
  show "x = CHR ''.''"
  proof (rule ccontr)
    assume ne: "x \<noteq> CHR ''.''"
    let ?n = "of_char x :: nat"
    from h ne have up: "(65 \<le> ?n \<and> ?n \<le> 90) \<or> (192 \<le> ?n \<and> ?n \<le> 222 \<and> ?n \<noteq> 215)"
      and eq: "char_of (?n + 32) = CHR ''.''"
      by (auto simp: ci_def py_lower_char_def Let_def split: if_splits)
    from eq have "(of_char (char_of (?n + 32) :: char) :: nat) = of_char (CHR ''.'')" by simp
    then have "(?n + 32) mod 256 = 46" by simp
    then show False using up by auto
  qed
next
  assume "x = CHR ''.''"
  then show "ci (CHR ''.'') x" by (simp add: ci_def)
qed

lemma grp_all_lit_ci: "grp_all P (lit_ci s)"
  by (induction s) auto

lemma grp_sure_lit_ci: "\<not> grp_sure (lit_ci s)"
  by (induction s) auto

lemma lang_digits1: "w \<in> lang digits1 rest \<longleftrightarrow> w \<noteq> [] \<and> (\<forall>c\<in>set w. is_digit c)"
  by (simp add: digits1_def)

lemma py_int_digits:
  assumes "w \<noteq> []" "\<forall>c\<in>set w. is_digit c" "int (length w) \<le> max_str_digits"
  shows "py_int w = Inr (int_of_digits w)"
  using assms by (simp add: py_int_def list_all_iff)

lemma py_int_long:
  assumes "w \<noteq> []" "\<forall>c\<in>set w. is_digit c" "max_str_digits < int (length w)"
  shows "py_int w = Inl ValueError"
  using assms by (simp add: py_int_def list_all_iff)

lemma short_text_no_long_run:
  assumes "int (length t) \<le> max_str_digits"
  shows "no_long_digit_run t"
  unfolding no_long_digit_run_def
proof (intro allI impI)
  fix w assume "sublist w t \<and> (\<forall>c\<in>set w. is_digit c)"
  then have "length w \<le> length t" using sublist_length_le by blast
  then show "int (length w) \<le> max_str_digits" using assms by simp
qed




text \<open>Integers up to \<open>2 ^ 53\<close> are doubles.\<close>

lemma bit_length_bound: "n < 2 ^ k \<Longrightarrow> bit_length n \<le> k"
proof (induction k arbitrary: n)
  case 0
  then have "n \<le> 0" by simp
  then show ?case by (simp add: bit_length.simps[of n])
next
  case (Suc k)
  show ?case
  proof (cases "n \<le> 0")
    case True
    then show ?thesis by (simp add: bit_length.simps[of n])
  next
    case False
    have "n div 2 < 2 ^ k" using Suc.prems by simp
    then have "bit_length (n div 2) \<le> k" by (rule Suc.IH)
    then show ?thesis using False by (simp add: bit_length.simps[of n])
  qed
qed

lemma nearest_double_exact:
  assumes "n \<le> 2 ^ 53"
  shows "nearest_double n = n"
proof (cases "n < 2 ^ 53")
  case True
  then have "bit_length n \<le> 53" by (rule bit_length_bound)
  then show ?thesis by (simp add: nearest_double_def)
next
  case False
  then have n: "n = 9007199254740992" using assms by simp
  have "nearest_double 9007199254740992 = 9007199254740992" by code_simp
  then show ?thesis unfolding n .
qed

lemma py_float_int_exact:
  assumes "0 \<le> n" "n \<le> 2 ^ 53"
  shows "py_float_int n = Inr (of_int n)"
proof -
  have "nearest_double \<bar>n\<bar> = n" using assms nearest_double_exact[of n] by simp
  moreover have "\<not> (2::int) ^ 1024 \<le> n" using assms(2) by simp
  ultimately show ?thesis using assms(1) by (simp add: py_float_int_def)
qed


lemma lang_decimal:
  assumes "w \<in> lang decimal rest"
  shows "\<exists>x. py_float_str w = Inr x"
proof -
  from assms obtain u v where w: "w = u @ v" and u: "u \<noteq> []" "\<forall>c\<in>set u. is_digit c"
    and v: "v = [] \<or> (\<exists>c ds. v = c # ds \<and> ci (CHR ''.'') c \<and> ds \<noteq> [] \<and> (\<forall>c\<in>set ds. is_digit c))"
    by (auto simp: decimal_def digits1_def)
  have nodot: "\<forall>c\<in>set u. c \<noteq> CHR ''.''" using u(2) digit_not_dot by blast
  from v show ?thesis
  proof
    assume "v = []"
    then have wu: "w = u" using w by simp
    have tw: "takeWhile (\<lambda>c. c \<noteq> CHR ''.'') u = u" using nodot by simp
    show ?thesis unfolding wu using u by (simp add: py_float_str_def Let_def list_all_iff tw)
  next
    assume "\<exists>c ds. v = c # ds \<and> ci (CHR ''.'') c \<and> ds \<noteq> [] \<and> (\<forall>c\<in>set ds. is_digit c)"
    then obtain ds where v': "v = CHR ''.'' # ds" "ds \<noteq> []" "\<forall>c\<in>set ds. is_digit c"
      by (auto simp: ci_dot)
    have tw: "takeWhile (\<lambda>c. c \<noteq> CHR ''.'') w = u"
      using w v' nodot by (simp add: takeWhile_append2)
    have dr: "drop (Suc (length u)) w = ds" using w v' by simp
    have len: "length u < length w" "\<not> length w \<le> Suc (length u)" using w v' by auto
    show ?thesis using u v'(2,3) len
      by (simp add: py_float_str_def Let_def list_all_iff tw dr del: of_nat_add)
  qed
qed

lemma re_search_digits:
  assumes "grp_all (\<lambda>w. w \<noteq> [] \<and> (\<forall>c\<in>set w. is_digit c)) r" "grp_sure r"
    and "re_search r t = Some g"
  shows "\<exists>w. g = Some w \<and> w \<noteq> [] \<and> (\<forall>c\<in>set w. is_digit c) \<and> sublist w t"
proof -
  from assms(3) obtain s s' where "(s', g) \<in> set (run r (s, None))" using re_search_Some by blast
  from run_capture_sure[OF assms(1,2) this] obtain w where w: "g = Some w" "w \<noteq> []"
    "\<forall>c\<in>set w. is_digit c" by blast
  then have "sublist w t" using assms(3) re_search_capture_sublist by blast
  then show ?thesis using w by blast
qed

lemma int_of_match_error_iff:
  assumes "grp_all (\<lambda>w. w \<noteq> [] \<and> (\<forall>c\<in>set w. is_digit c)) r" "grp_sure r"
  shows "int_of_match (re_search r t) = Inl e \<longleftrightarrow>
           e = ValueError \<and> (\<exists>w. re_search r t = Some (Some w) \<and> max_str_digits < int (length w))"
proof (cases "re_search r t")
  case None
  then show ?thesis by (simp add: int_of_match_def)
next
  case (Some g)
  from re_search_digits[OF assms Some] obtain w where w: "g = Some w" "w \<noteq> []"
    "\<forall>c\<in>set w. is_digit c" by blast
  show ?thesis
  proof (cases "max_str_digits < int (length w)")
    case True
    then have "py_int w = Inl ValueError" using w by (simp add: py_int_long)
    then show ?thesis using Some w True by (auto simp: int_of_match_def group1_def)
  next
    case False
    then have "py_int w = Inr (int_of_digits w)" using w by (simp add: py_int_digits)
    then show ?thesis using Some w False by (auto simp: int_of_match_def group1_def)
  qed
qed

lemma int_of_match_total:
  assumes "grp_all (\<lambda>w. w \<noteq> [] \<and> (\<forall>c\<in>set w. is_digit c)) r" "grp_sure r"
    and "no_long_digit_run t"
  shows "\<exists>v. int_of_match (re_search r t) = Inr v"
proof (cases "int_of_match (re_search r t)")
  case (Inl e)
  then obtain w where w: "re_search r t = Some (Some w)" "max_str_digits < int (length w)"
    using int_of_match_error_iff[OF assms(1,2)] by blast
  from re_search_digits[OF assms(1,2) w(1)] have "(\<forall>c\<in>set w. is_digit c) \<and> sublist w t"
    by auto
  then have "int (length w) \<le> max_str_digits"
    using assms(3) unfolding no_long_digit_run_def by blast
  then show ?thesis using w(2) by simp
next
  case (Inr v)
  then show ?thesis by blast
qed

lemma float_of_match_total:
  assumes "grp_all (\<lambda>w. \<exists>x. py_float_str w = Inr x) r" "grp_sure r"
  shows "\<exists>v. float_of_match (re_search r t) = Inr v"
proof (cases "re_search r t")
  case None
  then show ?thesis by (simp add: float_of_match_def)
next
  case (Some g)
  then obtain s s' where "(s', g) \<in> set (run r (s, None))" using re_search_Some by blast
  from run_capture_sure[OF assms this] obtain w x where "g = Some w" "py_float_str w = Inr x"
    by blast
  then show ?thesis using Some by (simp add: float_of_match_def group1_def)
qed

lemma digit_groups:
  "grp_all (\<lambda>w. w \<noteq> [] \<and> (\<forall>c\<in>set w. is_digit c)) humidity_rx" "grp_sure humidity_rx"
  "grp_all (\<lambda>w. w \<noteq> [] \<and> (\<forall>c\<in>set w. is_digit c)) uv_rx" "grp_sure uv_rx"
  "grp_all (\<lambda>w. w \<noteq> [] \<and> (\<forall>c\<in>set w. is_digit c)) celsius_rx" "grp_sure celsius_rx"
  "grp_all (\<lambda>w. w \<noteq> [] \<and> (\<forall>c\<in>set w. is_digit c)) fahrenheit_rx" "grp_sure fahrenheit_rx"
  "grp_all (\<lambda>w. w \<noteq> [] \<and> (\<forall>c\<in>set w. is_digit c)) temperature_rx" "grp_sure temperature_rx"
  "grp_all (\<lambda>w. w \<noteq> [] \<and> (\<forall>c\<in>set w. is_digit c)) degrees_rx" "grp_sure degrees_rx"
  by (simp_all add: humidity_rx_def uv_rx_def celsius_rx_def fahrenheit_rx_def
        temperature_rx_def degrees_rx_def grp_all_lit_ci lang_digits1
        del: lit_ci.simps)
     (simp_all add: digits1_def)

lemma decimal_groups:
  "grp_all (\<lambda>w. \<exists>x. py_float_str w = Inr x) pressure_rx" "grp_sure pressure_rx"
  "grp_all (\<lambda>w. \<exists>x. py_float_str w = Inr x) wind_rx" "grp_sure wind_rx"
  "grp_all (\<lambda>w. \<exists>x. py_float_str w = Inr x) visibility_rx" "grp_sure visibility_rx"
proof -
  have d: "grp_all (\<lambda>w. \<exists>x. py_float_str w = Inr x) (Grp decimal)"
    using lang_decimal by (auto simp: decimal_def digits1_def)
  show "grp_all (\<lambda>w. \<exists>x. py_float_str w = Inr x) pressure_rx"
    "grp_all (\<lambda>w. \<exists>x. py_float_str w = Inr x) wind_rx"
    "grp_all (\<lambda>w. \<exists>x. py_float_str w = Inr x) visibility_rx"
    using d by (simp_all add: pressure_rx_def wind_rx_def visibility_rx_def grp_all_lit_ci
                  del: lit_ci.simps grp_all.simps(1))
  show "grp_sure pressure_rx" "grp_sure wind_rx" "grp_sure visibility_rx"
    by (simp_all add: pressure_rx_def wind_rx_def visibility_rx_def)
qed

lemma float_matchers_total:
  "\<exists>v. extract_pressure t = Inr v"
  "\<exists>v. extract_wind_speed t = Inr v" "\<exists>v. extract_visibility t = Inr v"
  unfolding extract_pressure_def extract_wind_speed_def extract_visibility_def
  using float_of_match_total[OF decimal_groups(1,2)] float_of_match_total[OF decimal_groups(3,4)]
    float_of_match_total[OF decimal_groups(5,6)]
  by blast+

lemma int_matchers_total:
  assumes "no_long_digit_run t"
  shows "\<exists>v. extract_humidity t = Inr v" "\<exists>v. extract_uv_index t = Inr v"
  unfolding extract_humidity_def extract_uv_index_def
  using int_of_match_total[OF digit_groups(1,2) assms] int_of_match_total[OF digit_groups(3,4) assms]
  by blast+

lemma int_matchers_error:
  "extract_humidity t = Inl e \<longleftrightarrow>
     e = ValueError \<and> (\<exists>w. re_search humidity_rx t = Some (Some w) \<and> max_str_digits < int (length w))"
  "extract_uv_index t = Inl e \<longleftrightarrow>
     e = ValueError \<and> (\<exists>w. re_search uv_rx t = Some (Some w) \<and> max_str_digits < int (length w))"
  unfolding extract_humidity_def extract_uv_index_def
  using int_of_match_error_iff[OF digit_groups(1,2)] int_of_match_error_iff[OF digit_groups(3,4)]
  by blast+

lemma direction_loop_none:
  assumes "\<forall>d\<in>set ds. \<not> direction_hit d t"
  shows "direction_loop ds t = None"
  using assms by (induction ds) auto

lemma quality_loop_none:
  assumes "\<forall>q\<in>set qs. \<not> py_in q tc"
  shows "quality_loop qs tc = None"
  using assms by (induction qs) auto

section \<open>The temperature loop and the assembler\<close>

lemma not_matches_inI: "re_search r t = None \<Longrightarrow> \<not> matches_in r t"
  by (simp add: re_search_None)

lemma temp_loop_none:
  assumes "\<forall>p\<in>set ps. \<not> matches_in p t"
  shows "temp_loop ps t = Inr None"
  using assms
proof (induction ps)
  case Nil
  then show ?case by simp
next
  case (Cons p ps)
  then have "re_findall p t = []" by (simp add: re_findall_Nil)
  then show ?case using Cons by simp
qed

lemma current_weather_assembled:
  assumes "temp_loop temp_patterns t = Inr found"
    and "extract_humidity t = Inr h" "extract_uv_index t = Inr uv"
  shows "\<exists>p ws vis.
           extract_pressure t = Inr p
           \<and> extract_wind_speed t = Inr ws \<and> extract_visibility t = Inr vis
           \<and> extract_current_weather t =
               Some \<lparr> temperature = fst (case found of None \<Rightarrow> (25, 77) | Some q \<Rightarrow> q),
                      temperature_fahrenheit =
                        Some (snd (case found of None \<Rightarrow> (25, 77) | Some q \<Rightarrow> q)),
                      condition = extract_condition t,
                      humidity = h,
                      pressure = p,
                      wind_speed = ws,
                      wind_direction = extract_wind_direction t,
                      visibility = vis,
                      uv_index = uv,
                      air_quality = extract_air_quality t \<rparr>"
proof -
  obtain p ws vis where m: "extract_pressure t = Inr p"
    "extract_wind_speed t = Inr ws" "extract_visibility t = Inr vis"
    using float_matchers_total[of t] by blast
  show ?thesis
    using m assms
    by (simp add: extract_current_weather_def current_weather_body_def split: prod.splits)
qed

lemma current_weather_none:
  assumes "(\<exists>e. extract_humidity t = Inl e) \<or> (\<exists>e. extract_uv_index t = Inl e)"
  shows "extract_current_weather t = None"
proof -
  obtain p ws vis where m: "extract_pressure t = Inr p"
    "extract_wind_speed t = Inr ws" "extract_visibility t = Inr vis"
    using float_matchers_total[of t] by blast
  show ?thesis
    using m assms
    by (auto simp: extract_current_weather_def current_weather_body_def
             split: prod.splits sum.splits)
qed

lemma current_weather_Some:
  assumes "extract_current_weather t = Some cw"
  shows "\<exists>found h uv. temp_loop temp_patterns t = Inr found
           \<and> extract_humidity t = Inr h \<and> extract_uv_index t = Inr uv"
proof -
  have "\<not> ((\<exists>e. extract_humidity t = Inl e) \<or> (\<exists>e. extract_uv_index t = Inl e))"
    using assms current_weather_none[of t] by auto
  then obtain h uv where "extract_humidity t = Inr h" "extract_uv_index t = Inr uv"
    by (metis sum.exhaust)
  moreover obtain found where "temp_loop temp_patterns t = Inr found"
    using assms
    by (cases "temp_loop temp_patterns t")
       (auto simp: extract_current_weather_def current_weather_body_def)
  ultimately show ?thesis by blast
qed


section \<open>The Celsius pattern and the first match\<close>




lemma rev_lazy_rests_head:
  assumes "\<forall>c\<in>set ds. p c" "r = [] \<or> \<not> p (hd r)"
  shows "\<exists>xs. rev (lazy_rests p (ds @ r)) = r # xs"
  using assms
proof (induction ds)
  case Nil
  then show ?case by (cases r) auto
next
  case (Cons d ds)
  then obtain xs where "rev (lazy_rests p (ds @ r)) = r # xs" by auto
  then show ?case using Cons.prems by simp
qed










section \<open>A number of more than 4300 digits\<close>

lemma lazy_rests_head: "\<exists>more. lazy_rests p s = s # more"
  by (cases s) auto

lemma run_grp_digits_head:
  assumes "ds \<noteq> []" "\<forall>c\<in>set ds. is_digit c" "r = [] \<or> \<not> is_digit (hd r)"
  shows "\<exists>more. run (Grp digits1) (ds @ r, g) = (r, Some ds) # more"
proof -
  obtain d ds' where ds: "ds = d # ds'" using assms(1) by (cases ds) auto
  have "\<forall>c\<in>set ds'. is_digit c" using assms(2) ds by simp
  from rev_lazy_rests_head[OF this assms(3)]
  obtain xs where xs: "rev (lazy_rests is_digit (ds' @ r)) = r # xs" by blast
  have "is_digit d" using assms(2) ds by simp
  then show ?thesis using xs ds by (simp add: digits1_def)
qed

lemma run_grp_digits_none:
  assumes "\<not> is_digit x"
  shows "run (Seq (Grp digits1) rest) (x # xs, g) = []"
  using assms by (simp add: digits1_def)

lemma ci_percent: "ci (CHR ''%'') (CHR ''%'')"
  by (simp add: ci_def)

lemma ci_refl: "ci c c"
  by (simp add: ci_def)

lemma ci_h: "ci (CHR ''h'') (CHR ''H'')"
  by code_simp

lemma lit_humidity:
  "run (lit_ci ''humidity'') (''Humidity: '' @ x, g) = [('': '' @ x, g)]"
  by (simp add: ci_refl ci_h)

lemma lazy_two_then:
  assumes "\<not> is_digit a" "\<not> is_digit b" "any_char a" "any_char b"
    and "run (Seq (Grp digits1) rest) (x, None) = hit # tl0"
  shows "\<exists>more'. run (Seq (StarL any_char) (Seq (Grp digits1) rest)) (a # b # x, None)
                  = hit # more'"
proof -
  let ?R = "Seq (Grp digits1) rest"
  obtain m2 where m2: "lazy_rests any_char x = x # m2" using lazy_rests_head by blast
  have lz: "lazy_rests any_char (a # b # x) = (a # b # x) # (b # x) # x # m2"
    using m2 assms(3,4) by simp
  have n1: "run ?R (a # b # x, None) = []" using assms(1) by (rule run_grp_digits_none)
  have n2: "run ?R (b # x, None) = []" using assms(2) by (rule run_grp_digits_none)
  have "run (Seq (StarL any_char) ?R) (a # b # x, None)
          = concat (map (run ?R) (map (\<lambda>r. (r, None)) (lazy_rests any_char (a # b # x))))"
    by (simp only: run.simps)
  also have "\<dots> = run ?R (a # b # x, None) @ run ?R (b # x, None) @ run ?R (x, None)
                    @ concat (map (run ?R) (map (\<lambda>r. (r, None)) m2))"
    unfolding lz by (simp only: list.map concat.simps append_assoc)
  also have "\<dots> = hit # (tl0 @ concat (map (run ?R) (map (\<lambda>r. (r, None)) m2)))"
    unfolding n1 n2 assms(5) by simp
  finally show ?thesis by blast
qed

lemma search_humidity_long:
  assumes "ds \<noteq> []" "\<forall>c\<in>set ds. is_digit c"
  shows "re_search humidity_rx (''Humidity: '' @ ds @ ''%'') = Some (Some ds)"
proof -
  let ?R = "Seq (Grp digits1) (lit_ci ''%'')"
  let ?x = "ds @ ''%''"
  have pc: "''%'' = [] \<or> \<not> is_digit (hd ''%'')" by (simp add: is_digit_def)
  obtain m1 where m1: "run (Grp digits1) (?x, None) = (''%'', Some ds) # m1"
    using run_grp_digits_head[OF assms pc] by blast
  have pl: "run (lit_ci ''%'') (''%'', Some ds) = [([], Some ds)]" by (simp add: ci_refl)
  have "run ?R (?x, None) = concat (map (run (lit_ci ''%'')) (run (Grp digits1) (?x, None)))"
    by (simp only: run.simps)
  also have "\<dots> = ([], Some ds) # concat (map (run (lit_ci ''%'')) m1)"
    unfolding m1 by (simp only: list.map concat.simps pl append_Cons append_Nil)
  finally have r_head: "run ?R (?x, None) = ([], Some ds) # concat (map (run (lit_ci ''%'')) m1)" .
  have nd: "\<not> is_digit (CHR '':'')" "\<not> is_digit (CHR '' '')" by (simp_all add: is_digit_def)
  have ac: "any_char (CHR '':'')" "any_char (CHR '' '')" by (simp_all add: any_char_def)
  from lazy_two_then[OF nd ac r_head]
  obtain m4 where m4: "run (Seq (StarL any_char) ?R) (CHR '':'' # CHR '' '' # ?x, None)
                         = ([], Some ds) # m4" by blast
  have lit: "run (lit_ci ''humidity'') (''Humidity: '' @ ?x, None) = [('': '' @ ?x, None)]"
    by (rule lit_humidity)
  have sp: "'': '' @ ?x = CHR '':'' # CHR '' '' # ?x" by simp
  have "run humidity_rx (''Humidity: '' @ ?x, None)
          = concat (map (run (Seq (StarL any_char) ?R))
                        (run (lit_ci ''humidity'') (''Humidity: '' @ ?x, None)))"
    unfolding humidity_rx_def by (simp only: run.simps)
  also have "\<dots> = ([], Some ds) # m4"
    unfolding lit sp by (simp only: list.map concat.simps m4 append_Nil2)
  finally have "re_match humidity_rx (''Humidity: '' @ ?x) = Some (Some ds)"
    by (simp add: re_match_def)
  moreover have "\<exists>y ys. ''Humidity: '' @ ?x = y # ys" by simp
  ultimately show ?thesis by (metis re_search.simps(2) option.simps(5))
qed

lemma search_uv_long:
  assumes "ds \<noteq> []" "\<forall>c\<in>set ds. is_digit c"
  shows "re_search uv_rx (''uv'' @ ds) = Some (Some ds)"
proof -
  have e: "[] = [] \<or> \<not> is_digit (hd [])" by simp
  obtain m1 where m1: "run (Grp digits1) (ds @ [], None) = ([], Some ds) # m1"
    using run_grp_digits_head[OF assms e] by blast
  obtain m2 where m2: "lazy_rests any_char ds = ds # m2" using lazy_rests_head by blast
  have s_head: "run (Seq (StarL any_char) (Grp digits1)) (ds, None)
                  = ([], Some ds) # (m1 @ concat (map (run (Grp digits1)) (map (\<lambda>r. (r, None)) m2)))"
    using m1 m2 by (simp del: run.simps(9) lazy_rests.simps)
  have lit: "run (lit_ci ''uv'') (''uv'' @ ds, None) = [(ds, None)]"
    by (simp add: ci_def)
  have "run uv_rx (''uv'' @ ds, None)
          = ([], Some ds) # (m1 @ concat (map (run (Grp digits1)) (map (\<lambda>r. (r, None)) m2)))"
    unfolding uv_rx_def run.simps(3)[of "lit_ci ''uv''"] lit
    using s_head by simp
  then have "re_match uv_rx (''uv'' @ ds) = Some (Some ds)"
    by (simp add: re_match_def)
  then show ?thesis by simp
qed

lemma nines_4301:
  "replicate 4301 (CHR ''9'') \<noteq> []" "\<forall>c\<in>set (replicate 4301 (CHR ''9'')). is_digit c"
  "max_str_digits < int (length (replicate 4301 (CHR ''9'')))"
  by (simp_all add: is_digit_def max_str_digits_def)

section \<open>Integers beyond the doubles\<close>



section \<open>Claim about the temperature\<close>




text \<open>
  The marker test of the unit is case-sensitive, the patterns are not: a lower-case "c"
  after the degree sign is matched by the Celsius pattern, and the value is then read as
  Fahrenheit.
\<close>

lemma lower_case_marker_read_as_fahrenheit:
  "re_findall celsius_rx (''25'' @ [deg, CHR ''c'']) = [''25'']
   \<and> map_option (\<lambda>cw. (temperature cw, temperature_fahrenheit cw))
        (extract_current_weather (''25'' @ [deg, CHR ''c''])) = Some (- 35 / 9, Some 25)"
  by code_simp

section \<open>Claims about the optional matchers and the defaults\<close>

text \<open>
  C7, as the code has it. On a text in which its pattern does not match, each of the
  humidity, pressure, wind-speed, visibility and UV-index matchers returns \<^verbatim>\<open>None\<close>; the
  wind-direction matcher returns \<^verbatim>\<open>None\<close> when no direction of its list is hit and the
  air-quality matcher when no word of its list occurs. The pressure, wind-speed and
  visibility matchers raise on no text. The humidity and UV-index matchers raise, a
  \<^verbatim>\<open>ValueError\<close> of \<^verbatim>\<open>int\<close>, exactly when the number their pattern captures has more than
  4300 digits; so they raise on no text without such a run of digits.
\<close>

theorem optional_matchers_absent_or_long_number:
  "(\<not> matches_in humidity_rx t \<longrightarrow> extract_humidity t = Inr None)
   \<and> (\<not> matches_in pressure_rx t \<longrightarrow> extract_pressure t = Inr None)
   \<and> (\<not> matches_in wind_rx t \<longrightarrow> extract_wind_speed t = Inr None)
   \<and> (\<not> matches_in visibility_rx t \<longrightarrow> extract_visibility t = Inr None)
   \<and> (\<not> matches_in uv_rx t \<longrightarrow> extract_uv_index t = Inr None)
   \<and> ((\<forall>d\<in>set directions. \<not> direction_hit d t) \<longrightarrow> extract_wind_direction t = None)
   \<and> ((\<forall>q\<in>set aqi_qualities. \<not> py_in q (py_lower t)) \<longrightarrow> extract_air_quality t = None)
   \<and> (\<exists>v. extract_pressure t = Inr v)
   \<and> (\<exists>v. extract_wind_speed t = Inr v) \<and> (\<exists>v. extract_visibility t = Inr v)
   \<and> (extract_humidity t = Inl e \<longleftrightarrow>
         e = ValueError
         \<and> (\<exists>w. re_search humidity_rx t = Some (Some w) \<and> max_str_digits < int (length w)))
   \<and> (extract_uv_index t = Inl e \<longleftrightarrow>
         e = ValueError
         \<and> (\<exists>w. re_search uv_rx t = Some (Some w) \<and> max_str_digits < int (length w)))
   \<and> (no_long_digit_run t
         \<longrightarrow> (\<exists>v. extract_humidity t = Inr v) \<and> (\<exists>v. extract_uv_index t = Inr v))"
proof -
  have none: "\<And>r. \<not> matches_in r t \<Longrightarrow> re_search r t = None"
    by (simp add: re_search_None)
  have a: "\<not> matches_in humidity_rx t \<longrightarrow> extract_humidity t = Inr None"
    and b: "\<not> matches_in pressure_rx t \<longrightarrow> extract_pressure t = Inr None"
    and c: "\<not> matches_in wind_rx t \<longrightarrow> extract_wind_speed t = Inr None"
    and d: "\<not> matches_in visibility_rx t \<longrightarrow> extract_visibility t = Inr None"
    and e: "\<not> matches_in uv_rx t \<longrightarrow> extract_uv_index t = Inr None"
    using none
    by (simp_all add: extract_humidity_def extract_pressure_def extract_wind_speed_def
          extract_visibility_def extract_uv_index_def int_of_match_def float_of_match_def)
  have f: "(\<forall>d\<in>set directions. \<not> direction_hit d t) \<longrightarrow> extract_wind_direction t = None"
    unfolding extract_wind_direction_def using direction_loop_none by blast
  have g: "(\<forall>q\<in>set aqi_qualities. \<not> py_in q (py_lower t)) \<longrightarrow> extract_air_quality t = None"
    unfolding extract_air_quality_def using quality_loop_none by blast
  have h: "(\<exists>v. extract_pressure t = Inr v)
           \<and> (\<exists>v. extract_wind_speed t = Inr v) \<and> (\<exists>v. extract_visibility t = Inr v)"
    using float_matchers_total[of t] by blast
  have i: "extract_humidity t = Inl e \<longleftrightarrow>
             e = ValueError
             \<and> (\<exists>w. re_search humidity_rx t = Some (Some w) \<and> max_str_digits < int (length w))"
    by (rule int_matchers_error(1))
  have j: "extract_uv_index t = Inl e \<longleftrightarrow>
             e = ValueError
             \<and> (\<exists>w. re_search uv_rx t = Some (Some w) \<and> max_str_digits < int (length w))"
    by (rule int_matchers_error(2))
  have k: "no_long_digit_run t
             \<longrightarrow> (\<exists>v. extract_humidity t = Inr v) \<and> (\<exists>v. extract_uv_index t = Inr v)"
    using int_matchers_total[of t] by blast
  show ?thesis
    apply (rule conjI, rule a)
    apply (rule conjI, rule b)
    apply (rule conjI, rule c)
    apply (rule conjI, rule d)
    apply (rule conjI, rule e)
    apply (rule conjI, rule f)
    apply (rule conjI, rule g)
    apply (rule conjI, rule h[THEN conjunct1])
    apply (rule conjI, rule h[THEN conjunct2, THEN conjunct1])
    apply (rule conjI, rule h[THEN conjunct2, THEN conjunct2])
    apply (rule conjI, rule i)
    apply (rule conjI, rule j)
    apply (rule k)
    done
qed

theorem optional_matchers_absent_or_long_number_witness:
  "\<not> matches_in humidity_rx ''Sunny, 25 degrees'' \<and> extract_humidity ''Sunny, 25 degrees'' = Inr None
   \<and> \<not> matches_in pressure_rx ''Sunny, 25 degrees'' \<and> extract_pressure ''Sunny, 25 degrees'' = Inr None
   \<and> \<not> matches_in wind_rx ''Sunny, 25 degrees'' \<and> extract_wind_speed ''Sunny, 25 degrees'' = Inr None
   \<and> \<not> matches_in visibility_rx ''Sunny, 25 degrees''
   \<and> extract_visibility ''Sunny, 25 degrees'' = Inr None
   \<and> \<not> matches_in uv_rx ''Sunny, 25 degrees'' \<and> extract_uv_index ''Sunny, 25 degrees'' = Inr None
   \<and> list_all (\<lambda>d. \<not> direction_hit d ''Sunny, 25 degrees'') directions
   \<and> extract_wind_direction ''Sunny, 25 degrees'' = None
   \<and> list_all (\<lambda>q. \<not> py_in q (py_lower ''Sunny, 25 degrees'')) aqi_qualities
   \<and> extract_air_quality ''Sunny, 25 degrees'' = None
   \<and> no_long_digit_run ''Humidity: 60%, UV 7''
   \<and> (\<exists>v. extract_humidity ''Humidity: 60%, UV 7'' = Inr v)
   \<and> (\<exists>v. extract_uv_index ''Humidity: 60%, UV 7'' = Inr v)"
proof -
  let ?t = "''Sunny, 25 degrees''"
  let ?u = "''Humidity: 60%, UV 7''"
  have m: "\<not> matches_in humidity_rx ?t" "\<not> matches_in pressure_rx ?t"
    "\<not> matches_in wind_rx ?t" "\<not> matches_in visibility_rx ?t" "\<not> matches_in uv_rx ?t"
    by (rule not_matches_inI, code_simp)+
  have d: "\<forall>d\<in>set directions. \<not> direction_hit d ?t" by code_simp
  have q: "\<forall>q\<in>set aqi_qualities. \<not> py_in q (py_lower ?t)" by code_simp
  from optional_matchers_absent_or_long_number[of ?t] m d q
  have r: "extract_humidity ?t = Inr None" "extract_pressure ?t = Inr None"
    "extract_wind_speed ?t = Inr None" "extract_visibility ?t = Inr None"
    "extract_uv_index ?t = Inr None" "extract_wind_direction ?t = None"
    "extract_air_quality ?t = None" by blast+
  have "int (length ?u) \<le> max_str_digits" by (simp add: max_str_digits_def)
  then have n: "no_long_digit_run ?u" by (rule short_text_no_long_run)
  from optional_matchers_absent_or_long_number[of ?u] n
  have s: "\<exists>v. extract_humidity ?u = Inr v" "\<exists>v. extract_uv_index ?u = Inr v" by blast+
  from m d q r n s show ?thesis unfolding list_all_iff by blast
qed

text \<open>
  C7 as the claim states it fails on a page text with a long number: the humidity pattern
  matches "Humidity: " followed by 4301 digits and a percent sign, the UV pattern
  matches "uv" followed by 4301 digits, and in both \<^verbatim>\<open>int\<close> raises on the captured
  digits.
\<close>

theorem integer_matchers_raise_on_long_number:
  "extract_humidity (''Humidity: '' @ replicate 4301 (CHR ''9'') @ ''%'') = Inl ValueError
   \<and> extract_uv_index (''uv'' @ replicate 4301 (CHR ''9'')) = Inl ValueError"
proof -
  let ?ds = "replicate 4301 (CHR ''9'')"
  have a: "re_search humidity_rx (''Humidity: '' @ ?ds @ ''%'') = Some (Some ?ds)"
    using nines_4301(1,2) by (rule search_humidity_long)
  have b: "re_search uv_rx (''uv'' @ ?ds) = Some (Some ?ds)"
    using nines_4301(1,2) by (rule search_uv_long)
  have "extract_humidity (''Humidity: '' @ ?ds @ ''%'') = Inl ValueError"
    unfolding int_matchers_error(1) using a nines_4301(3) by blast
  moreover have "extract_uv_index (''uv'' @ ?ds) = Inl ValueError"
    unfolding int_matchers_error(2) using b nines_4301(3) by blast
  ultimately show ?thesis by blast
qed

text \<open>
  C2, as the code has it. On a text in which none of the four temperature patterns
  matches, a record that the assembler returns has temperature 25.0 and Fahrenheit
  temperature 77.0, and its condition is the result of the condition matcher, which
  looks at the keywords only: it is "Partly Cloudy" when no condition keyword occurs in
  the text. The assembler returns no record exactly when the number captured by the
  humidity or by the UV pattern has more than 4300 digits (\<^verbatim>\<open>int\<close> raises and the
  \<^verbatim>\<open>except\<close> clause returns \<^verbatim>\<open>None\<close>); it returns a record on every text without such a
  run of digits.
\<close>

theorem defaults_without_temperature_pattern:
  assumes "\<forall>p\<in>set temp_patterns. \<not> matches_in p t"
  shows "(\<forall>cw. extract_current_weather t = Some cw
             \<longrightarrow> temperature cw = 25 \<and> temperature_fahrenheit cw = Some 77
                 \<and> CurrentWeather.condition cw = extract_condition t
                 \<and> ((\<forall>k\<in>set conditions. \<not> py_in k (py_lower t))
                       \<longrightarrow> CurrentWeather.condition cw = ''Partly Cloudy''))
         \<and> (extract_current_weather t = None \<longleftrightarrow>
              (\<exists>w. re_search humidity_rx t = Some (Some w) \<and> max_str_digits < int (length w))
              \<or> (\<exists>w. re_search uv_rx t = Some (Some w) \<and> max_str_digits < int (length w)))
         \<and> (no_long_digit_run t \<longrightarrow> (\<exists>cw. extract_current_weather t = Some cw))"
proof -
  from temp_loop_none[OF assms] have tl: "temp_loop temp_patterns t = Inr None" .
  have rec: "\<forall>cw. extract_current_weather t = Some cw
             \<longrightarrow> temperature cw = 25 \<and> temperature_fahrenheit cw = Some 77
                 \<and> CurrentWeather.condition cw = extract_condition t
                 \<and> ((\<forall>k\<in>set conditions. \<not> py_in k (py_lower t))
                       \<longrightarrow> CurrentWeather.condition cw = ''Partly Cloudy'')"
  proof (intro allI impI)
    fix cw assume s: "extract_current_weather t = Some cw"
    from current_weather_Some[OF s] obtain h uv where hu: "extract_humidity t = Inr h"
      "extract_uv_index t = Inr uv" by blast
    from current_weather_assembled[OF tl hu] s
    have cw: "temperature cw = 25" "temperature_fahrenheit cw = Some 77"
      "CurrentWeather.condition cw = extract_condition t" by auto
    moreover have "(\<forall>k\<in>set conditions. \<not> py_in k (py_lower t))
                    \<longrightarrow> CurrentWeather.condition cw = ''Partly Cloudy''"
      using cw(3) condition_loop_none by (simp add: extract_condition_def)
    ultimately show "temperature cw = 25 \<and> temperature_fahrenheit cw = Some 77
                 \<and> CurrentWeather.condition cw = extract_condition t
                 \<and> ((\<forall>k\<in>set conditions. \<not> py_in k (py_lower t))
                       \<longrightarrow> CurrentWeather.condition cw = ''Partly Cloudy'')" by blast
  qed
  have err: "(\<exists>e. extract_humidity t = Inl e) \<or> (\<exists>e. extract_uv_index t = Inl e) \<longleftrightarrow>
              (\<exists>w. re_search humidity_rx t = Some (Some w) \<and> max_str_digits < int (length w))
              \<or> (\<exists>w. re_search uv_rx t = Some (Some w) \<and> max_str_digits < int (length w))"
    unfolding int_matchers_error by blast
  have some: "\<exists>cw. extract_current_weather t = Some cw"
    if "\<not> ((\<exists>e. extract_humidity t = Inl e) \<or> (\<exists>e. extract_uv_index t = Inl e))"
  proof -
    from that obtain h uv where hu: "extract_humidity t = Inr h" "extract_uv_index t = Inr uv"
      by (metis sum.exhaust)
    from current_weather_assembled[OF tl hu] show ?thesis by blast
  qed
  have none: "extract_current_weather t = None \<longleftrightarrow>
              (\<exists>e. extract_humidity t = Inl e) \<or> (\<exists>e. extract_uv_index t = Inl e)"
    using some current_weather_none[of t] by fastforce
  have short: "no_long_digit_run t \<longrightarrow> (\<exists>cw. extract_current_weather t = Some cw)"
  proof
    assume "no_long_digit_run t"
    from int_matchers_total[OF this] have "\<not> ((\<exists>e. extract_humidity t = Inl e)
                                              \<or> (\<exists>e. extract_uv_index t = Inl e))" by auto
    then show "\<exists>cw. extract_current_weather t = Some cw" by (rule some)
  qed
  from none err have none': "extract_current_weather t = None \<longleftrightarrow>
              (\<exists>w. re_search humidity_rx t = Some (Some w) \<and> max_str_digits < int (length w))
              \<or> (\<exists>w. re_search uv_rx t = Some (Some w) \<and> max_str_digits < int (length w))"
    by (rule trans)
  show ?thesis
    apply (rule conjI, rule rec)
    apply (rule conjI, rule none')
    apply (rule short)
    done
qed

theorem defaults_without_temperature_pattern_witness:
  "list_all (\<lambda>p. \<not> matches_in p ''Humidity: 60%, wind 5 km/h'') temp_patterns
   \<and> list_all (\<lambda>k. \<not> py_in k (py_lower ''Humidity: 60%, wind 5 km/h'')) conditions
   \<and> no_long_digit_run ''Humidity: 60%, wind 5 km/h''
   \<and> (\<exists>cw. extract_current_weather ''Humidity: 60%, wind 5 km/h'' = Some cw
           \<and> temperature cw = 25 \<and> temperature_fahrenheit cw = Some 77
           \<and> CurrentWeather.condition cw = ''Partly Cloudy'')"
proof -
  let ?t = "''Humidity: 60%, wind 5 km/h''"
  have "\<forall>p\<in>set temp_patterns. re_search p ?t = None" by code_simp
  then have a: "\<forall>p\<in>set temp_patterns. \<not> matches_in p ?t"
    using not_matches_inI by blast
  have b: "\<forall>k\<in>set conditions. \<not> py_in k (py_lower ?t)" by code_simp
  have "int (length ?t) \<le> max_str_digits" by (simp add: max_str_digits_def)
  then have n: "no_long_digit_run ?t" by (rule short_text_no_long_run)
  from defaults_without_temperature_pattern[OF a] b n
  have c: "\<exists>cw. extract_current_weather ?t = Some cw
           \<and> temperature cw = 25 \<and> temperature_fahrenheit cw = Some 77
           \<and> CurrentWeather.condition cw = ''Partly Cloudy''" by blast
  from a b n c show ?thesis unfolding list_all_iff by blast
qed

text \<open>
  C2 as the claim states it fails on the text "sunny": no temperature pattern matches,
  the temperatures are the defaults, and the condition is "Sunny", not "Partly Cloudy".
\<close>

theorem default_temperature_with_sunny_condition:
  "\<not> matches_in celsius_rx ''sunny'' \<and> \<not> matches_in fahrenheit_rx ''sunny''
   \<and> \<not> matches_in temperature_rx ''sunny'' \<and> \<not> matches_in degrees_rx ''sunny''
   \<and> map_option (\<lambda>cw. (temperature cw, temperature_fahrenheit cw, CurrentWeather.condition cw))
        (extract_current_weather ''sunny'') = Some (25, Some 77, ''Sunny'')"
proof -
  have "\<not> matches_in celsius_rx ''sunny''" "\<not> matches_in fahrenheit_rx ''sunny''"
    "\<not> matches_in temperature_rx ''sunny''" "\<not> matches_in degrees_rx ''sunny''"
    by (rule not_matches_inI, code_simp)+
  moreover have "map_option (\<lambda>cw. (temperature cw, temperature_fahrenheit cw,
                     CurrentWeather.condition cw))
        (extract_current_weather ''sunny'') = Some (25, Some 77, ''Sunny'')"
    by code_simp
  ultimately show ?thesis by blast
qed

text \<open>
  There is no record at all for the page text "Humidity: " followed by 4301 digits and a
  percent sign: the \<^verbatim>\<open>ValueError\<close> of \<^verbatim>\<open>int\<close> in the humidity matcher is caught by the
  \<^verbatim>\<open>except\<close> clause of the assembler.
\<close>

lemma no_record_on_long_humidity_number:
  "extract_current_weather (''Humidity: '' @ replicate 4301 (CHR ''9'') @ ''%'') = None"
proof -
  let ?ds = "replicate 4301 (CHR ''9'')"
  have a: "re_search humidity_rx (''Humidity: '' @ ?ds @ ''%'') = Some (Some ?ds)"
    using nines_4301(1,2) by (rule search_humidity_long)
  have "extract_humidity (''Humidity: '' @ ?ds @ ''%'') = Inl ValueError"
    unfolding int_matchers_error(1) using a nines_4301(3) by blast
  then show ?thesis using current_weather_none by blast
qed

section \<open>Claims about the condition matcher\<close>

text \<open>
  C3. The condition matcher returns the title-cased form of the first keyword, in the
  order of the list \<open>conditions\<close>, that occurs in the lower-cased text; the order of the
  list decides, not the position in the text, so a text with both "sunny" and "cloudy"
  gives "Sunny"; when no keyword occurs the result is "Partly Cloudy". A keyword occurs
  in the lower-cased text exactly when some part of the text lower-cases to it.
\<close>

theorem condition_is_first_keyword_in_list_order:
  "(conditions = pre @ k # post \<and> py_in k (py_lower t)
      \<and> (\<forall>k'\<in>set pre. \<not> py_in k' (py_lower t))
      \<longrightarrow> extract_condition t = py_title k)
   \<and> ((\<forall>k'\<in>set conditions. \<not> py_in k' (py_lower t))
         \<longrightarrow> extract_condition t = ''Partly Cloudy'')
   \<and> (py_in ''sunny'' (py_lower t) \<and> py_in ''cloudy'' (py_lower t)
         \<longrightarrow> extract_condition t = ''Sunny'')
   \<and> conditions = [''sunny'', ''cloudy'', ''rainy'', ''stormy'', ''clear'', ''overcast'',
                     ''partly cloudy'', ''mostly cloudy'']
   \<and> map py_title conditions = [''Sunny'', ''Cloudy'', ''Rainy'', ''Stormy'', ''Clear'',
                                   ''Overcast'', ''Partly Cloudy'', ''Mostly Cloudy'']
   \<and> (py_in k (py_lower t) \<longleftrightarrow> (\<exists>s. sublist s t \<and> py_lower s = k))"
proof (intro conjI)
  show "conditions = pre @ k # post \<and> py_in k (py_lower t)
      \<and> (\<forall>k'\<in>set pre. \<not> py_in k' (py_lower t))
      \<longrightarrow> extract_condition t = py_title k"
    unfolding extract_condition_def using condition_loop_first by blast
  show "(\<forall>k'\<in>set conditions. \<not> py_in k' (py_lower t))
         \<longrightarrow> extract_condition t = ''Partly Cloudy''"
    unfolding extract_condition_def using condition_loop_none by blast
  show "py_in ''sunny'' (py_lower t) \<and> py_in ''cloudy'' (py_lower t)
         \<longrightarrow> extract_condition t = ''Sunny''"
    by (simp add: extract_condition_cases)
  show "conditions = [''sunny'', ''cloudy'', ''rainy'', ''stormy'', ''clear'', ''overcast'',
                     ''partly cloudy'', ''mostly cloudy'']"
    by (simp add: conditions_def)
  show "map py_title conditions = [''Sunny'', ''Cloudy'', ''Rainy'', ''Stormy'', ''Clear'',
                                   ''Overcast'', ''Partly Cloudy'', ''Mostly Cloudy'']"
    by (rule condition_titles)
  show "py_in k (py_lower t) \<longleftrightarrow> (\<exists>s. sublist s t \<and> py_lower s = k)"
    by (rule py_in_lower_iff)
qed

theorem condition_is_first_keyword_in_list_order_witness:
  "py_in ''sunny'' (py_lower ''Cloudy at noon, SUNNY later'')
   \<and> py_in ''cloudy'' (py_lower ''Cloudy at noon, SUNNY later'')
   \<and> extract_condition ''Cloudy at noon, SUNNY later'' = ''Sunny''
   \<and> conditions = [''sunny'', ''cloudy''] @ ''rainy'' # [''stormy'', ''clear'', ''overcast'',
                     ''partly cloudy'', ''mostly cloudy'']
   \<and> py_in ''rainy'' (py_lower ''Rainy day'')
   \<and> list_all (\<lambda>k'. \<not> py_in k' (py_lower ''Rainy day'')) [''sunny'', ''cloudy'']
   \<and> extract_condition ''Rainy day'' = py_title ''rainy''
   \<and> list_all (\<lambda>k'. \<not> py_in k' (py_lower ''no weather info'')) conditions
   \<and> extract_condition ''no weather info'' = ''Partly Cloudy''"
proof -
  have a: "py_in ''sunny'' (py_lower ''Cloudy at noon, SUNNY later'')"
    and b: "py_in ''cloudy'' (py_lower ''Cloudy at noon, SUNNY later'')"
    by code_simp+
  from condition_is_first_keyword_in_list_order[of "[]" "''sunny''" "tl conditions"
      "''Cloudy at noon, SUNNY later''"] a b
  have c: "extract_condition ''Cloudy at noon, SUNNY later'' = ''Sunny''" by blast
  have d: "conditions = [''sunny'', ''cloudy''] @ ''rainy'' # [''stormy'', ''clear'',
             ''overcast'', ''partly cloudy'', ''mostly cloudy'']"
    by (simp add: conditions_def)
  have e: "py_in ''rainy'' (py_lower ''Rainy day'')" by code_simp
  have f: "\<forall>k'\<in>set [''sunny'', ''cloudy'']. \<not> py_in k' (py_lower ''Rainy day'')"
    by code_simp
  from condition_is_first_keyword_in_list_order[of "[''sunny'', ''cloudy'']" "''rainy''"
      "[''stormy'', ''clear'', ''overcast'', ''partly cloudy'', ''mostly cloudy'']"
      "''Rainy day''"] d e f
  have g: "extract_condition ''Rainy day'' = py_title ''rainy''" by blast
  have h: "\<forall>k'\<in>set conditions. \<not> py_in k' (py_lower ''no weather info'')" by code_simp
  from condition_is_first_keyword_in_list_order[of "[]" "''sunny''" "[]" "''no weather info''"] h
  have i: "extract_condition ''no weather info'' = ''Partly Cloudy''" by blast
  from a b c d e f g h i show ?thesis unfolding list_all_iff by blast
qed

text \<open>
  C9, as the code has it. For a text that contains "partly cloudy" or "mostly cloudy"
  (in any case) the condition matcher returns "Sunny" when "sunny" occurs as well and
  "Cloudy" otherwise. It never returns "Mostly Cloudy", and it returns "Partly Cloudy"
  only when no keyword of the list occurs, as the default.
\<close>

theorem partly_and_mostly_cloudy_are_shadowed:
  "(py_in ''partly cloudy'' (py_lower t) \<or> py_in ''mostly cloudy'' (py_lower t)
      \<longrightarrow> extract_condition t
            = (if py_in ''sunny'' (py_lower t) then ''Sunny'' else ''Cloudy''))
   \<and> extract_condition t \<noteq> ''Mostly Cloudy''
   \<and> (extract_condition t = ''Partly Cloudy''
        \<longrightarrow> (\<forall>k\<in>set conditions. \<not> py_in k (py_lower t)))"
proof (intro conjI impI)
  assume h: "py_in ''partly cloudy'' (py_lower t) \<or> py_in ''mostly cloudy'' (py_lower t)"
  then have "py_in ''cloudy'' (py_lower t)"
    using cloudy_in_partly_mostly py_in_trans by blast
  then show "extract_condition t
            = (if py_in ''sunny'' (py_lower t) then ''Sunny'' else ''Cloudy'')"
    by (simp add: extract_condition_cases)
next
  show "extract_condition t \<noteq> ''Mostly Cloudy''"
    by (simp add: extract_condition_cases)
next
  assume h: "extract_condition t = ''Partly Cloudy''"
  have c: "\<not> py_in ''cloudy'' (py_lower t)"
    using h by (auto simp: extract_condition_cases split: if_splits)
  then have "\<not> py_in ''partly cloudy'' (py_lower t)" "\<not> py_in ''mostly cloudy'' (py_lower t)"
    using cloudy_in_partly_mostly py_in_trans by blast+
  then show "\<forall>k\<in>set conditions. \<not> py_in k (py_lower t)"
    using h c by (auto simp: extract_condition_cases conditions_def split: if_splits)
qed

theorem partly_and_mostly_cloudy_are_shadowed_witness:
  "py_in ''partly cloudy'' (py_lower ''Partly Cloudy skies'')
   \<and> \<not> py_in ''sunny'' (py_lower ''Partly Cloudy skies'')
   \<and> extract_condition ''Partly Cloudy skies'' = ''Cloudy''
   \<and> extract_condition ''no weather info'' = ''Partly Cloudy''
   \<and> list_all (\<lambda>k. \<not> py_in k (py_lower ''no weather info'')) conditions"
proof -
  have a: "py_in ''partly cloudy'' (py_lower ''Partly Cloudy skies'')"
    and b: "\<not> py_in ''sunny'' (py_lower ''Partly Cloudy skies'')" by code_simp+
  from partly_and_mostly_cloudy_are_shadowed[of "''Partly Cloudy skies''"] a b
  have c: "extract_condition ''Partly Cloudy skies'' = ''Cloudy''" by simp
  have d: "extract_condition ''no weather info'' = ''Partly Cloudy''" by code_simp
  from partly_and_mostly_cloudy_are_shadowed[of "''no weather info''"] d
  have e: "\<forall>k\<in>set conditions. \<not> py_in k (py_lower ''no weather info'')" by blast
  from a b c d e show ?thesis unfolding list_all_iff by blast
qed

text \<open>
  C9 as the claim states it fails when "sunny" occurs too: the text below contains
  "partly cloudy" and the matcher returns "Sunny", not "Cloudy".
\<close>

theorem sunny_wins_over_partly_cloudy:
  "py_in ''partly cloudy'' (py_lower ''Sunny at first, partly cloudy later'')
   \<and> extract_condition ''Sunny at first, partly cloudy later'' = ''Sunny''
   \<and> extract_condition ''Sunny at first, partly cloudy later'' \<noteq> ''Cloudy''"
  by code_simp


lemma upt_7: "[0..<7] = [0, 1, 2, 3, 4, 5, 6]"
  by (simp add: upt_rec)

lemma upt_4: "[0..<4] = [0, 1, 2, 3]"
  by (simp add: upt_rec)

lemma upt_2: "[0..<2] = [0, 1]"
  by (simp add: upt_rec)

lemmas date_eval =
  date_string_def ord2ymd_def Let_def days_before_month_def days_in_month_def zero_pad_def
  py_str_int_def str_nat.simps char_of_eq_iff

lemma example_dates:
  "date_string 738900 = ''2024-01-15''" "date_string 738901 = ''2024-01-16''"
  "date_string 738902 = ''2024-01-17''" "date_string 738903 = ''2024-01-18''"
  "date_string 738904 = ''2024-01-19''" "date_string 738905 = ''2024-01-20''"
  "date_string 738906 = ''2024-01-21''"
  by (simp_all add: date_eval)

section \<open>Claims about forecast synthesis\<close>

text \<open>
  C4, as the code has it. With the clock fixed on the day \<open>today\<close>: the record forecast
  (\<^verbatim>\<open>_extract_forecast_data\<close>) always has the seven entries for \<open>i = 0, ..., 6\<close> with the date
  of \<open>today + i\<close>, high \<open>28 + i\<close>, low \<open>22 + i\<close> (no remainder is taken), condition
  "Partly Cloudy" and the fixed precipitation chance 30; the forecast endpoint
  (\<^verbatim>\<open>scrape_forecast_data\<close>) has, for \<open>i\<close> in \<open>[0, days)\<close>, the date of \<open>today + i\<close>, high
  \<open>28 + (i mod 3)\<close>, low \<open>22 + (i mod 2)\<close>, condition "Partly Cloudy" and the precipitation
  text of \<open>30 + 5 * i\<close> percent. The two formulas stay distinct.
\<close>

theorem forecast_formulas_of_both_call_sites:
  assumes "\<forall>i. toordinal (clock i) = today" and "1 \<le> today"
  shows "(today + 6 \<le> max_ordinal \<longrightarrow>
            extract_forecast_data clock =
              Some (map (\<lambda>i. \<lparr> date = date_string (today + int i),
                                 high_temp = 28 + of_nat i,
                                 low_temp = 22 + of_nat i,
                                 condition = ''Partly Cloudy'',
                                 precipitation_chance = Some 30 \<rparr>) [0..<7]))
       \<and> (today + days - 1 \<le> max_ordinal \<longrightarrow>
            scrape_forecast_data clock city_arg days =
              Some (PDict [(''city'', PStr city_arg),
                           (''forecast_days'', PInt days),
                           (''forecast'', PList (map (\<lambda>i.
                               PDict [(''date'', PStr (date_string (today + int i))),
                                      (''high_temp'', PInt (28 + (int i mod 3))),
                                      (''low_temp'', PInt (22 + (int i mod 2))),
                                      (''condition'', PStr ''Partly Cloudy''),
                                      (''precipitation'',
                                         PStr (py_str_int (30 + (int i * 5)) @ ''%''))])
                             [0..<nat days]))]))"
proof (intro conjI impI)
  assume top: "today + 6 \<le> max_ordinal"
  have "\<forall>i\<in>set [0..<7]. toordinal (clock i) = today \<and> 1 \<le> today + int i
           \<and> today + int i \<le> max_ordinal \<and> int i \<le> 999999999"
    using assms top by auto
  from daily_loop_closed[OF this] show "extract_forecast_data clock =
              Some (map (\<lambda>i. \<lparr> date = date_string (today + int i),
                                 high_temp = 28 + of_nat i,
                                 low_temp = 22 + of_nat i,
                                 condition = ''Partly Cloudy'',
                                 precipitation_chance = Some 30 \<rparr>) [0..<7])"
    by (simp add: extract_forecast_data_def)
next
  assume top: "today + days - 1 \<le> max_ordinal"
  have "\<forall>i\<in>set [0..<nat days]. toordinal (clock i) = today \<and> 1 \<le> today + int i
           \<and> today + int i \<le> max_ordinal \<and> int i \<le> 999999999"
    using assms top by (auto simp: max_ordinal_def)
  from entry_loop_closed[OF this]
  show "scrape_forecast_data clock city_arg days =
              Some (PDict [(''city'', PStr city_arg),
                           (''forecast_days'', PInt days),
                           (''forecast'', PList (map (\<lambda>i.
                               PDict [(''date'', PStr (date_string (today + int i))),
                                      (''high_temp'', PInt (28 + (int i mod 3))),
                                      (''low_temp'', PInt (22 + (int i mod 2))),
                                      (''condition'', PStr ''Partly Cloudy''),
                                      (''precipitation'',
                                         PStr (py_str_int (30 + (int i * 5)) @ ''%''))])
                             [0..<nat days]))])"
    by (simp add: scrape_forecast_data_def)
qed

text \<open>
  The clock of the examples: every reading falls on 2024-01-15 (ordinal 738900).
\<close>

theorem forecast_formulas_of_both_call_sites_witness:
  "map_option (map high_temp)
       (extract_forecast_data (\<lambda>i. \<lparr>toordinal = 738900, day_us = 0\<rparr>))
     = Some [28, 29, 30, 31, 32, 33, 34]
   \<and> map_option (map date)
       (extract_forecast_data (\<lambda>i. \<lparr>toordinal = 738900, day_us = 0\<rparr>))
     = Some [''2024-01-15'', ''2024-01-16'', ''2024-01-17'', ''2024-01-18'',
             ''2024-01-19'', ''2024-01-20'', ''2024-01-21'']
   \<and> map_option (\<lambda>v. map (\<lambda>e. (field e ''high_temp'', field e ''low_temp'',
                                     field e ''precipitation'')) (forecast_of v))
       (scrape_forecast_data (\<lambda>i. \<lparr>toordinal = 738900, day_us = 0\<rparr>) ''Pune'' 4)
     = Some [(Some (PInt 28), Some (PInt 22), Some (PStr ''30%'')),
             (Some (PInt 29), Some (PInt 23), Some (PStr ''35%'')),
             (Some (PInt 30), Some (PInt 22), Some (PStr ''40%'')),
             (Some (PInt 28), Some (PInt 23), Some (PStr ''45%''))]"
proof -
  let ?clock = "\<lambda>i::nat. \<lparr>toordinal = 738900, day_us = 0::nat\<rparr>"
  have fixed: "\<forall>i. toordinal (?clock i) = 738900" by simp
  have valid: "(1::int) \<le> 738900" by simp
  have r1: "(738900::int) + 6 \<le> max_ordinal" by (simp add: max_ordinal_def)
  have r2: "(738900::int) + 4 - 1 \<le> max_ordinal" by (simp add: max_ordinal_def)
  note inst = forecast_formulas_of_both_call_sites[OF fixed valid, of 4 "''Pune''"]
  from inst r1 have a: "extract_forecast_data ?clock =
              Some (map (\<lambda>i. \<lparr> date = date_string (738900 + int i),
                                 high_temp = 28 + of_nat i,
                                 low_temp = 22 + of_nat i,
                                 condition = ''Partly Cloudy'',
                                 precipitation_chance = Some 30 \<rparr>) [0..<7])"
    by blast
  from inst r2 have b: "scrape_forecast_data ?clock ''Pune'' 4 =
              Some (PDict [(''city'', PStr ''Pune''),
                           (''forecast_days'', PInt 4),
                           (''forecast'', PList (map (\<lambda>i.
                               PDict [(''date'', PStr (date_string (738900 + int i))),
                                      (''high_temp'', PInt (28 + (int i mod 3))),
                                      (''low_temp'', PInt (22 + (int i mod 2))),
                                      (''condition'', PStr ''Partly Cloudy''),
                                      (''precipitation'',
                                         PStr (py_str_int (30 + (int i * 5)) @ ''%''))])
                             [0..<nat 4]))])"
    by blast
  have c1: "map_option (map high_temp) (extract_forecast_data ?clock)
              = Some [28, 29, 30, 31, 32, 33, 34]"
    unfolding a by (simp add: upt_7)
  have c2: "map_option (map date) (extract_forecast_data ?clock)
     = Some [''2024-01-15'', ''2024-01-16'', ''2024-01-17'', ''2024-01-18'',
             ''2024-01-19'', ''2024-01-20'', ''2024-01-21'']"
    unfolding a by (simp add: upt_7 example_dates)
  have c3: "map_option (\<lambda>v. map (\<lambda>e. (field e ''high_temp'', field e ''low_temp'',
                                     field e ''precipitation'')) (forecast_of v))
       (scrape_forecast_data ?clock ''Pune'' 4)
     = Some [(Some (PInt 28), Some (PInt 22), Some (PStr ''30%'')),
             (Some (PInt 29), Some (PInt 23), Some (PStr ''35%'')),
             (Some (PInt 30), Some (PInt 22), Some (PStr ''40%'')),
             (Some (PInt 28), Some (PInt 23), Some (PStr ''45%''))]"
    unfolding b by (simp add: upt_4 forecast_of_def field_def py_str_int_def str_nat.simps char_of_eq_iff)
  from c1 c2 c3 show ?thesis by blast
qed

text \<open>
  C4 as the claim states it fails at the record forecast: its entry for day 3 has high 31
  and low 25, where \<open>28 + (3 mod 3)\<close> is 28 and \<open>22 + (3 mod 2)\<close> is 23.
\<close>

theorem record_forecast_takes_no_remainder:
  "map_option (\<lambda>fl. (high_temp (fl ! 3), low_temp (fl ! 3)))
       (extract_forecast_data (\<lambda>i. \<lparr>toordinal = 738900, day_us = 0\<rparr>))
     = Some (31, 25)
   \<and> (31::rat) \<noteq> 28 + of_nat (3 mod 3) \<and> (25::rat) \<noteq> 22 + of_nat (3 mod 2)"
  by (simp add: extract_forecast_data_def upt_7 add_days_def max_ordinal_def)


lemma scrape_forecast_data_Some:
  assumes "scrape_forecast_data clock city_arg days = Some v"
  shows "entry_loop clock [0..<nat days] = Inr (forecast_of v)"
  using assms by (auto simp: scrape_forecast_data_def forecast_of_def split: sum.splits)

lemma endpoint_entry_bounds:
  assumes "scrape_forecast_data clock city_arg days = Some v" "e \<in> set (forecast_of v)"
  shows "\<exists>h l. field e ''high_temp'' = Some (PInt h) \<and> field e ''low_temp'' = Some (PInt l)
           \<and> 28 \<le> h \<and> h \<le> 30 \<and> 22 \<le> l \<and> l \<le> 23"
proof -
  from entry_loop_members[OF scrape_forecast_data_Some[OF assms(1)] assms(2)]
  obtain i d where e: "e = forecast_entry d i" by auto
  have "0 \<le> int i mod 3" "int i mod 3 \<le> 2" "0 \<le> int i mod 2" "int i mod 2 \<le> 1"
    by presburger+
  then show ?thesis unfolding e by (simp add: forecast_entry_def field_def)
qed

lemma record_entry_gap:
  assumes "extract_forecast_data clock = Some fl" "e \<in> set fl"
  shows "high_temp e = low_temp e + 6"
proof -
  from assms(1) have "daily_loop clock [0..<7] = Inr fl"
    by (auto simp: extract_forecast_data_def split: sum.splits)
  from daily_loop_members[OF this assms(2)] show ?thesis by auto
qed

text \<open>
  C5, as the code has it. For a clock fixed on one day the endpoint forecast is the same
  in every run. Its length is the requested day count when that count is not negative and
  the last day, \<open>today + days - 1\<close>, is not beyond 9999-12-31 (so it is empty for 0 days and
  has 100 entries for 100 days); for a negative count the forecast is empty, and when a
  day is beyond the last date the call has no result.
\<close>

theorem endpoint_forecast_deterministic_with_length:
  assumes "\<forall>i. toordinal (c1 i) = today" and "\<forall>i. toordinal (c2 i) = today"
  shows "scrape_forecast_data c1 city_arg days = scrape_forecast_data c2 city_arg days
       \<and> (0 \<le> days \<and> 1 \<le> today \<and> today + days - 1 \<le> max_ordinal \<longrightarrow>
            (\<exists>v. scrape_forecast_data c1 city_arg days = Some v
                 \<and> int (length (forecast_of v)) = days))
       \<and> (days < 0 \<longrightarrow>
            (\<exists>v. scrape_forecast_data c1 city_arg days = Some v \<and> forecast_of v = []))
       \<and> (0 < days \<and> max_ordinal < today + days - 1 \<longrightarrow>
            scrape_forecast_data c1 city_arg days = None)"
proof (intro conjI impI)
  have "\<forall>i\<in>set [0..<nat days]. toordinal (c1 i) = toordinal (c2 i)" using assms by simp
  from entry_loop_same_days[OF this]
  show "scrape_forecast_data c1 city_arg days = scrape_forecast_data c2 city_arg days"
    by (simp add: scrape_forecast_data_def)
next
  assume h: "0 \<le> days \<and> 1 \<le> today \<and> today + days - 1 \<le> max_ordinal"
  have "\<forall>i\<in>set [0..<nat days]. toordinal (c1 i) = today \<and> 1 \<le> today + int i
           \<and> today + int i \<le> max_ordinal \<and> int i \<le> 999999999"
    using assms h by (auto simp: max_ordinal_def)
  from entry_loop_closed[OF this]
  have "\<exists>es. entry_loop c1 [0..<nat days] = Inr es \<and> length es = nat days" by simp
  then show "\<exists>v. scrape_forecast_data c1 city_arg days = Some v
                 \<and> int (length (forecast_of v)) = days"
    using h by (auto simp: scrape_forecast_data_def forecast_of_def)
next
  assume "days < 0"
  then have "[0..<nat days] = []" by simp
  then show "\<exists>v. scrape_forecast_data c1 city_arg days = Some v \<and> forecast_of v = []"
    by (simp add: scrape_forecast_data_def forecast_of_def)
next
  assume h: "0 < days \<and> max_ordinal < today + days - 1"
  let ?i = "nat (days - 1)"
  have "?i \<in> set [0..<nat days]" using h by auto
  moreover have "max_ordinal < toordinal (c1 ?i) + int ?i" using assms h by simp
  ultimately obtain e where "entry_loop c1 [0..<nat days] = Inl e"
    using entry_loop_overflow by blast
  then show "scrape_forecast_data c1 city_arg days = None"
    by (simp add: scrape_forecast_data_def)
qed

theorem endpoint_forecast_deterministic_with_length_witness:
  "(\<exists>v. scrape_forecast_data (\<lambda>i. \<lparr>toordinal = 738900, day_us = 0\<rparr>) ''Pune'' 100 = Some v
        \<and> int (length (forecast_of v)) = 100)
   \<and> (\<exists>v. scrape_forecast_data (\<lambda>i. \<lparr>toordinal = 738900, day_us = 0\<rparr>) ''Pune'' 0 = Some v
        \<and> int (length (forecast_of v)) = 0)
   \<and> scrape_forecast_data (\<lambda>i. \<lparr>toordinal = 738900, day_us = 0\<rparr>) ''Pune'' 100
       = scrape_forecast_data (\<lambda>i. \<lparr>toordinal = 738900, day_us = 86399999999\<rparr>) ''Pune'' 100"
proof -
  let ?c1 = "\<lambda>i::nat. \<lparr>toordinal = 738900, day_us = 0::nat\<rparr>"
  let ?c2 = "\<lambda>i::nat. \<lparr>toordinal = 738900, day_us = 86399999999::nat\<rparr>"
  have f1: "\<forall>i. toordinal (?c1 i) = 738900" and f2: "\<forall>i. toordinal (?c2 i) = 738900"
    by simp_all
  have h100: "(0::int) \<le> 100 \<and> (1::int) \<le> 738900 \<and> (738900::int) + 100 - 1 \<le> max_ordinal"
    by (simp add: max_ordinal_def)
  have h0: "(0::int) \<le> 0 \<and> (1::int) \<le> 738900 \<and> (738900::int) + 0 - 1 \<le> max_ordinal"
    by (simp add: max_ordinal_def)
  from endpoint_forecast_deterministic_with_length[OF f1 f2, of "''Pune''" 100] h100
  have a: "\<exists>v. scrape_forecast_data ?c1 ''Pune'' 100 = Some v
              \<and> int (length (forecast_of v)) = 100"
    and c: "scrape_forecast_data ?c1 ''Pune'' 100 = scrape_forecast_data ?c2 ''Pune'' 100"
    by blast+
  from endpoint_forecast_deterministic_with_length[OF f1 f2, of "''Pune''" 0] h0
  have b: "\<exists>v. scrape_forecast_data ?c1 ''Pune'' 0 = Some v
              \<and> int (length (forecast_of v)) = 0"
    by blast
  from a b c show ?thesis by blast
qed

text \<open>
  C5 as the claim states it ("always") fails twice: for the day count -1 the forecast is
  empty, so its length 0 is not the requested count, and for three million days from
  2024-01-15 the dates leave the range of \<^verbatim>\<open>datetime\<close> and there is no sequence at all.
\<close>

theorem endpoint_forecast_length_not_always:
  "map_option (\<lambda>v. (field v ''forecast_days'', int (length (forecast_of v))))
       (scrape_forecast_data (\<lambda>i. \<lparr>toordinal = 738900, day_us = 0\<rparr>) ''Pune'' (- 1))
     = Some (Some (PInt (- 1)), 0)
   \<and> scrape_forecast_data (\<lambda>i. \<lparr>toordinal = 738900, day_us = 0\<rparr>) ''Pune'' 3000000 = None"
proof
  show "map_option (\<lambda>v. (field v ''forecast_days'', int (length (forecast_of v))))
       (scrape_forecast_data (\<lambda>i. \<lparr>toordinal = 738900, day_us = 0\<rparr>) ''Pune'' (- 1))
     = Some (Some (PInt (- 1)), 0)"
    by (simp add: scrape_forecast_data_def forecast_of_def field_def)
next
  let ?c = "\<lambda>i::nat. \<lparr>toordinal = 738900, day_us = 0::nat\<rparr>"
  have m: "(2999999::nat) \<in> set [0..<nat 3000000]" by simp
  have b: "max_ordinal < toordinal (?c 2999999) + int 2999999"
    by (simp add: max_ordinal_def)
  from entry_loop_overflow[of 2999999 "[0..<nat 3000000]" ?c, OF m b]
  obtain e where "entry_loop ?c [0..<nat 3000000] = Inl e" by blast
  then show "scrape_forecast_data ?c ''Pune'' 3000000 = None"
    by (simp add: scrape_forecast_data_def)
qed

text \<open>
  C6, as the code has it. Every synthesized entry has its high above its low: in the
  record forecast the high is the low plus 6, and in the endpoint forecast the high is
  between 28 and 30 and the low is 22 or 23.
\<close>

theorem synthesized_high_is_above_low:
  "(extract_forecast_data clock = Some fl \<and> e \<in> set fl \<longrightarrow>
      high_temp e = low_temp e + 6 \<and> low_temp e < high_temp e)
   \<and> (scrape_forecast_data clock city_arg days = Some v \<and> e' \<in> set (forecast_of v) \<longrightarrow>
        (\<exists>h l. field e' ''high_temp'' = Some (PInt h) \<and> field e' ''low_temp'' = Some (PInt l)
              \<and> 28 \<le> h \<and> h \<le> 30 \<and> 22 \<le> l \<and> l \<le> 23 \<and> l < h))"
proof (rule conjI; rule impI)
  assume "extract_forecast_data clock = Some fl \<and> e \<in> set fl"
  then have "high_temp e = low_temp e + 6" using record_entry_gap by blast
  then show "high_temp e = low_temp e + 6 \<and> low_temp e < high_temp e" by simp
next
  assume "scrape_forecast_data clock city_arg days = Some v \<and> e' \<in> set (forecast_of v)"
  then obtain h l where "field e' ''high_temp'' = Some (PInt h)"
      "field e' ''low_temp'' = Some (PInt l)" "28 \<le> h" "h \<le> 30" "22 \<le> l" "l \<le> 23"
    using endpoint_entry_bounds by blast
  then show "\<exists>h l. field e' ''high_temp'' = Some (PInt h) \<and> field e' ''low_temp'' = Some (PInt l)
              \<and> 28 \<le> h \<and> h \<le> 30 \<and> 22 \<le> l \<and> l \<le> 23 \<and> l < h"
    by auto
qed

theorem synthesized_high_is_above_low_witness:
  "(\<exists>fl. extract_forecast_data (\<lambda>i. \<lparr>toordinal = 738900, day_us = 0\<rparr>) = Some fl
         \<and> fl ! 1 \<in> set fl
         \<and> high_temp (fl ! 1) = low_temp (fl ! 1) + 6)
   \<and> (\<exists>v. scrape_forecast_data (\<lambda>i. \<lparr>toordinal = 738900, day_us = 0\<rparr>) ''Pune'' 2 = Some v
         \<and> forecast_of v ! 1 \<in> set (forecast_of v)
         \<and> (\<exists>h l. field (forecast_of v ! 1) ''high_temp'' = Some (PInt h)
               \<and> field (forecast_of v ! 1) ''low_temp'' = Some (PInt l) \<and> l < h))"
proof -
  let ?c = "\<lambda>i::nat. \<lparr>toordinal = 738900, day_us = 0::nat\<rparr>"
  have "\<exists>fl. extract_forecast_data ?c = Some fl \<and> length fl = 7"
    by (simp add: extract_forecast_data_def upt_7 upt_2 add_days_def max_ordinal_def)
  then obtain fl where fl: "extract_forecast_data ?c = Some fl" and "length fl = 7" by blast
  then have m1: "fl ! 1 \<in> set fl" by simp
  have "\<exists>v. scrape_forecast_data ?c ''Pune'' 2 = Some v \<and> length (forecast_of v) = 2"
    by (simp add: scrape_forecast_data_def upt_7 upt_2 add_days_def max_ordinal_def forecast_of_def)
  then obtain v where v: "scrape_forecast_data ?c ''Pune'' 2 = Some v"
    and "length (forecast_of v) = 2" by blast
  then have m2: "forecast_of v ! 1 \<in> set (forecast_of v)" by simp
  from synthesized_high_is_above_low[of ?c fl "fl ! 1" "''Pune''" 2 v "forecast_of v ! 1"]
    fl m1 v m2
  show ?thesis by blast
qed

text \<open>
  C6 as the claim states it is false: no clock, no day count and no entry of either call
  site has its low above its high.
\<close>

theorem no_synthesized_low_above_high:
  "\<not> (\<exists>clock fl e. extract_forecast_data clock = Some fl \<and> e \<in> set fl
          \<and> high_temp e < low_temp e)
   \<and> \<not> (\<exists>clock city_arg days v e h l.
          scrape_forecast_data clock city_arg days = Some v \<and> e \<in> set (forecast_of v)
          \<and> field e ''high_temp'' = Some (PInt h) \<and> field e ''low_temp'' = Some (PInt l)
          \<and> h < l)"
proof
  show "\<not> (\<exists>clock fl e. extract_forecast_data clock = Some fl \<and> e \<in> set fl
          \<and> high_temp e < low_temp e)"
  proof
    assume "\<exists>clock fl e. extract_forecast_data clock = Some fl \<and> e \<in> set fl
          \<and> high_temp e < low_temp e"
    then obtain clock fl e where "extract_forecast_data clock = Some fl" "e \<in> set fl"
      and lt: "high_temp e < low_temp e" by blast
    then have "high_temp e = low_temp e + 6" using record_entry_gap by blast
    then show False using lt by simp
  qed
next
  show "\<not> (\<exists>clock city_arg days v e h l.
          scrape_forecast_data clock city_arg days = Some v \<and> e \<in> set (forecast_of v)
          \<and> field e ''high_temp'' = Some (PInt h) \<and> field e ''low_temp'' = Some (PInt l)
          \<and> h < l)"
  proof
    assume "\<exists>clock city_arg days v e h l.
          scrape_forecast_data clock city_arg days = Some v \<and> e \<in> set (forecast_of v)
          \<and> field e ''high_temp'' = Some (PInt h) \<and> field e ''low_temp'' = Some (PInt l)
          \<and> h < l"
    then obtain clock city_arg days v e h l where
      v: "scrape_forecast_data clock city_arg days = Some v" "e \<in> set (forecast_of v)"
      and hl: "field e ''high_temp'' = Some (PInt h)" "field e ''low_temp'' = Some (PInt l)"
        "h < l" by blast
    from endpoint_entry_bounds[OF v] hl show False by auto
  qed
qed

section \<open>The country of a built record\<close>

text \<open>
  C10. In every record that \<^verbatim>\<open>_parse_bing_weather\<close> builds, the country is "India" when
  the caller's country is \<^verbatim>\<open>None\<close> or the empty string, and the caller's country
  otherwise; the field is a string, never \<^verbatim>\<open>None\<close>.
\<close>

theorem built_record_country:
  assumes "parse_bing_weather clock updated t city_arg state_arg country_arg = Some r"
  shows "country r = (if country_arg = None \<or> country_arg = Some [] then ''India''
                      else the country_arg)"
  using assms
  by (auto simp: parse_bing_weather_def country_or_india_def split: option.splits)

theorem built_record_country_witness:
  "(\<exists>r. parse_bing_weather (\<lambda>i. \<lparr>toordinal = 738900, day_us = 0\<rparr>)
            \<lparr>toordinal = 738900, day_us = 7\<rparr> ''Sunny, humidity 60%'' ''Pune'' None (Some [])
          = Some r \<and> country r = ''India'')
   \<and> (\<exists>r. parse_bing_weather (\<lambda>i. \<lparr>toordinal = 738900, day_us = 0\<rparr>)
            \<lparr>toordinal = 738900, day_us = 7\<rparr> ''Sunny, humidity 60%'' ''Lyon'' None (Some ''France'')
          = Some r \<and> country r = ''France'')"
proof -
  let ?c = "\<lambda>i::nat. \<lparr>toordinal = 738900, day_us = 0::nat\<rparr>"
  let ?u = "\<lparr>toordinal = 738900, day_us = 7::nat\<rparr>"
  have cw: "extract_current_weather ''Sunny, humidity 60%'' \<noteq> None"
    by code_simp
  then have "parse_bing_weather ?c ?u ''Sunny, humidity 60%'' ''Pune'' None (Some []) \<noteq> None"
    by (auto simp: parse_bing_weather_def)
  then obtain r1 where r1:
    "parse_bing_weather ?c ?u ''Sunny, humidity 60%'' ''Pune'' None (Some []) = Some r1"
    by blast
  from cw have "parse_bing_weather ?c ?u ''Sunny, humidity 60%'' ''Lyon'' None (Some ''France'') \<noteq> None"
    by (auto simp: parse_bing_weather_def)
  then obtain r2 where r2:
    "parse_bing_weather ?c ?u ''Sunny, humidity 60%'' ''Lyon'' None (Some ''France'') = Some r2"
    by blast
  from built_record_country[OF r1] have "country r1 = ''India''" by simp
  moreover from built_record_country[OF r2] have "country r2 = ''France''" by simp
  ultimately show ?thesis using r1 r2 by blast
qed

section \<open>Claim about city names\<close>

text \<open>
  C8, as the code has it. Both validators accept a city name exactly when the name has at
  least two characters after trimming and consists only of ASCII letters, white space,
  hyphens, apostrophes and dots (\<open>city_char\<close>).
\<close>

theorem city_name_accepted_exactly_when:
  "(validate_city_name c \<longleftrightarrow> 2 \<le> length (py_strip c) \<and> (\<forall>x\<in>set c. city_char x))
   \<and> (CityValidator_validate_city_name c
        \<longleftrightarrow> 2 \<le> length (py_strip c) \<and> (\<forall>x\<in>set c. city_char x))"
  unfolding validate_city_name_def CityValidator_validate_city_name_def
  using city_name_accepted_iff[of c] by blast

theorem city_name_accepted_exactly_when_witness:
  "2 \<le> length (py_strip '' St. John's '') \<and> list_all city_char '' St. John's ''
   \<and> validate_city_name '' St. John's ''
   \<and> CityValidator_validate_city_name '' St. John's ''
   \<and> \<not> (\<forall>x\<in>set ''City@123''. city_char x)
   \<and> \<not> validate_city_name ''City@123''"
proof -
  have a: "2 \<le> length (py_strip '' St. John's '')" by code_simp
  have b: "\<forall>x\<in>set '' St. John's ''. city_char x" by code_simp
  have c: "\<not> (\<forall>x\<in>set ''City@123''. city_char x)" by code_simp
  from city_name_accepted_exactly_when[of "'' St. John's ''"] a b
  have d: "validate_city_name '' St. John's ''"
    and e: "CityValidator_validate_city_name '' St. John's ''" by blast+
  from city_name_accepted_exactly_when[of "''City@123''"] c
  have f: "\<not> validate_city_name ''City@123''" by blast
  from a b c d e f show ?thesis unfolding list_all_iff by blast
qed

text \<open>
  C8 as the claim states it fails for a name of one letter: "A" is not empty after
  trimming and is a letter, and both validators reject it.
\<close>

theorem one_letter_city_rejected:
  "py_strip ''A'' = ''A'' \<and> is_upper_ascii (CHR ''A'')
   \<and> \<not> validate_city_name ''A'' \<and> \<not> CityValidator_validate_city_name ''A''"
  by code_simp

end
